theory Spec2Isabelle
  imports Complex_Main "HOL-Library.Log_Nat" "HOL-Library.Multiset"
begin

section \<open>Strings and numbers of the host language\<close>

text \<open>
  Strings are lists of 8-bit characters.  The model covers ASCII text: \<open>toLowerCase\<close>
  maps \<open>A\<close>..\<open>Z\<close> to \<open>a\<close>..\<open>z\<close> and leaves every other character alone, as
  JavaScript's \<open>String.prototype.toLowerCase\<close> does on ASCII input.
\<close>

definition toLowerChar :: "char \<Rightarrow> char" where
  "toLowerChar c =
     (let n = (of_char c :: nat) in if 65 \<le> n \<and> n \<le> 90 then char_of (n + 32) else c)"

definition toLowerCase :: "string \<Rightarrow> string" where
  "toLowerCase s = map toLowerChar s"

text \<open>\<open>s.startsWith(p)\<close> and \<open>s.includes(t)\<close>.\<close>

fun startsWith :: "string \<Rightarrow> string \<Rightarrow> bool" where
  "startsWith s [] = True"
| "startsWith [] (p # ps) = False"
| "startsWith (c # cs) (p # ps) = (c = p \<and> startsWith cs ps)"

fun str_includes :: "string \<Rightarrow> string \<Rightarrow> bool" where
  "str_includes [] t = (t = [])"
| "str_includes (c # cs) t = (startsWith (c # cs) t \<or> str_includes cs t)"

text \<open>\<open>xs.join(sep)\<close> on an array of strings.\<close>

fun joinStrings :: "string \<Rightarrow> string list \<Rightarrow> string" where
  "joinStrings sep [] = []"
| "joinStrings sep [x] = x"
| "joinStrings sep (x # y # ys) = x @ sep @ joinStrings sep (y # ys)"

text \<open>Decimal rendering of an integer, as a template literal renders an integral number.\<close>

definition digit_char :: "nat \<Rightarrow> char" where
  "digit_char d = char_of (48 + d)"

fun nat_toString :: "nat \<Rightarrow> string" where
  "nat_toString n =
     (if n < 10 then [digit_char n] else nat_toString (n div 10) @ [digit_char (n mod 10)])"

declare nat_toString.simps [simp del]

definition int_toString :: "int \<Rightarrow> string" where
  "int_toString i = (if i < 0 then CHR ''-'' # nat_toString (nat (- i)) else nat_toString (nat i))"

section \<open>Files and media entries\<close>

text \<open>
  A browser \<open>File\<close>: name, declared MIME type and byte length.  The payload itself is not
  inspected by any function modelled here.
\<close>

record File =
  name :: string
  ftype :: string
  fsize :: nat

section \<open>imageUtils.ts: the media validator\<close>

definition ALLOWED_MIME_TYPES :: "string list" where
  "ALLOWED_MIME_TYPES = [''image/jpeg'', ''image/jpg'', ''image/png'', ''image/webp'']"

definition MAX_FILE_SIZE :: nat where
  "MAX_FILE_SIZE = 10 * 1024 * 1024"

definition MAX_WIDTH :: nat where
  "MAX_WIDTH = 2000"

definition suspiciousExtensions :: "string list" where
  "suspiciousExtensions = [''.exe'', ''.bat'', ''.cmd'', ''.scr'', ''.com'', ''.pif'']"

record validation =
  isValid :: bool
  error :: "string option"

definition quoted :: "string \<Rightarrow> string" where
  "quoted s = [CHR 0x22] @ s @ [CHR 0x22]"

definition validateImageFile :: "File \<Rightarrow> validation" where
  "validateImageFile file =
     (if fsize file > MAX_FILE_SIZE then
        \<lparr>isValid = False,
         error = Some (''File '' @ quoted (name file) @ '' is too large. Maximum size is 10MB.'')\<rparr>
      else if ftype file \<notin> set ALLOWED_MIME_TYPES then
        \<lparr>isValid = False,
         error = Some (''File '' @ quoted (name file) @
                       '' has unsupported format. Only JPG, PNG, and WebP are allowed.'')\<rparr>
      else if list_ex (\<lambda>ext. str_includes (toLowerCase (name file)) ext) suspiciousExtensions then
        \<lparr>isValid = False,
         error = Some (''File '' @ quoted (name file) @
                       '' appears to be suspicious and cannot be uploaded.'')\<rparr>
      else \<lparr>isValid = True, error = None\<rparr>)"

section \<open>AutoLayout.tsx: the placement heuristic\<close>

definition getSectionPlacement :: "string \<Rightarrow> string" where
  "getSectionPlacement caption =
     (let lowerCaption = toLowerCase caption in
      if str_includes lowerCaption ''intro'' \<or> str_includes lowerCaption ''background''
           \<or> str_includes lowerCaption ''overview''
      then ''introduction''
      else if str_includes lowerCaption ''method'' \<or> str_includes lowerCaption ''approach''
           \<or> str_includes lowerCaption ''process''
      then ''methodology''
      else if str_includes lowerCaption ''result'' \<or> str_includes lowerCaption ''data''
           \<or> str_includes lowerCaption ''chart'' \<or> str_includes lowerCaption ''graph''
      then ''results''
      else ''results'')"

text \<open>The three keyword groups, as predicates on the caption.\<close>

definition intro_keyword :: "string \<Rightarrow> bool" where
  "intro_keyword caption =
     list_ex (str_includes (toLowerCase caption)) [''intro'', ''background'', ''overview'']"

definition method_keyword :: "string \<Rightarrow> bool" where
  "method_keyword caption =
     list_ex (str_includes (toLowerCase caption)) [''method'', ''approach'', ''process'']"

definition results_keyword :: "string \<Rightarrow> bool" where
  "results_keyword caption =
     list_ex (str_includes (toLowerCase caption)) [''result'', ''data'', ''chart'', ''graph'']"

section \<open>exportUtils: download names\<close>

text \<open>
  \<open>title.replace(/[^a-z0-9]/gi, '_').toLowerCase()\<close>: every character that is not an ASCII
  letter or digit is replaced by an underscore, then the string is lower-cased.
\<close>

definition is_digit :: "char \<Rightarrow> bool" where
  "is_digit c = (let n = (of_char c :: nat) in 48 \<le> n \<and> n \<le> 57)"

definition is_lower :: "char \<Rightarrow> bool" where
  "is_lower c = (let n = (of_char c :: nat) in 97 \<le> n \<and> n \<le> 122)"

definition is_upper :: "char \<Rightarrow> bool" where
  "is_upper c = (let n = (of_char c :: nat) in 65 \<le> n \<and> n \<le> 90)"

definition sanitizeName :: "string \<Rightarrow> string" where
  "sanitizeName title =
     toLowerCase (map (\<lambda>c. if is_lower c \<or> is_upper c \<or> is_digit c then c else CHR ''_'') title)"

definition pdfFileName :: "string \<Rightarrow> string" where
  "pdfFileName title = sanitizeName title @ ''.pdf''"




section \<open>JavaScript numbers\<close>

text \<open>
  A JavaScript \<open>number\<close> is an IEEE-754 binary64 value.  Every number that the modelled
  code computes is non-negative (pixel counts and their quotients), so the model has the
  non-negative finite doubles, as the rationals they denote, \<open>Infinity\<close> and \<open>NaN\<close>.

  \<open>round_double q\<close> is the double nearest to the rational \<open>q \<ge> 0\<close>: 53 significant bits,
  ties to the even significand, gradual underflow below \<open>2 powi (-1022)\<close>, overflow to
  \<open>Infinity\<close> when the rounded value reaches \<open>2 ^ 1024\<close> (exponent 1023 and a
  significand rounded up to \<open>2 ^ 53 = 9007199254740992\<close>, or a larger exponent).
\<close>

datatype number = Num rat | PosInf | NaN

definition rne :: "rat \<Rightarrow> int" where
  "rne x =
     (let f = \<lfloor>x\<rfloor>; r = x - of_int f
      in if r < 1 / 2 then f else if 1 / 2 < r then f + 1 else if even f then f else f + 1)"

definition ilog2 :: "rat \<Rightarrow> int" where
  "ilog2 q =
     (let (n, d) = quotient_of q; k = bitlen n - bitlen d
      in if 2 powi k \<le> q then k else k - 1)"

definition round_double :: "rat \<Rightarrow> number" where
  "round_double q =
     (if q = 0 then Num 0
      else let e = max (ilog2 q) (- 1022);
               ulp = 2 powi (e - 52);
               m = rne (q / ulp)
           in if 1023 < e \<or> (e = 1023 \<and> m = 9007199254740992) then PosInf
              else Num (of_int m * ulp))"

text \<open>The operator \<open>/\<close> on non-negative operands.\<close>

fun fdiv :: "number \<Rightarrow> number \<Rightarrow> number" where
  "fdiv (Num a) (Num b) =
     (if b = 0 then (if a = 0 then NaN else PosInf) else round_double (a / b))"
| "fdiv (Num a) PosInf = Num 0"
| "fdiv PosInf (Num b) = PosInf"
| "fdiv PosInf PosInf = NaN"
| "fdiv NaN y = NaN"
| "fdiv x NaN = NaN"

text \<open>
  \<open>Math.round\<close>: the nearest integer, a tie going towards \<open>+Infinity\<close>; exact on every
  finite double.
\<close>

fun Math_round :: "number \<Rightarrow> number" where
  "Math_round (Num x) = Num (of_int \<lfloor>x + 1 / 2\<rfloor>)"
| "Math_round PosInf = PosInf"
| "Math_round NaN = NaN"

section \<open>imageUtils.ts: the image normalizer and the moderation stub\<close>

record ProcessedImage =
  "file" :: File
  width :: number
  height :: number
  aspectRatio :: number

text \<open>
  What the browser does with one file: \<open>decode\<close> is \<open>Some (img.width, img.height)\<close> when
  the image loads and \<open>None\<close> when \<open>img.onerror\<close> fires; \<open>encode\<close> is the byte length of
  the file the encoder makes of a canvas bitmap that has pixels, \<open>None\<close> when it fails.
\<close>

record image_env =
  decode :: "(nat \<times> nat) option"
  encode :: "nat option"

text \<open>
  \<open>canvas.width = w\<close> and \<open>canvas.height = h\<close>: a number that is not finite is stored
  as 0.  \<open>canvas.toBlob\<close> hands its callback \<open>null\<close> when the bitmap has no pixels (its
  width or its height is 0), and what the encoder delivers otherwise.
\<close>

fun canvasDim :: "number \<Rightarrow> int" where
  "canvasDim (Num a) = \<lfloor>a\<rfloor>"
| "canvasDim PosInf = 0"
| "canvasDim NaN = 0"

definition toBlob :: "image_env \<Rightarrow> number \<Rightarrow> number \<Rightarrow> nat option" where
  "toBlob env w h = (if canvasDim w = 0 \<or> canvasDim h = 0 then None else encode env)"

text \<open>\<open>Inl\<close> is the message of the error the promise rejects with.\<close>

definition processImage :: "image_env \<Rightarrow> File \<Rightarrow> string + ProcessedImage" where
  "processImage env f =
     (case decode env of
        None \<Rightarrow> Inl (''Failed to load image: '' @ name f)
      | Some (originalWidth, originalHeight) \<Rightarrow>
          let aspectRatio0 = fdiv (Num (of_nat originalWidth)) (Num (of_nat originalHeight));
              newWidth = (if originalWidth > MAX_WIDTH then Num (of_nat MAX_WIDTH)
                          else Num (of_nat originalWidth));
              newHeight = (if originalWidth > MAX_WIDTH
                           then Math_round (fdiv (Num (of_nat MAX_WIDTH)) aspectRatio0)
                           else Num (of_nat originalHeight))
          in (case toBlob env newWidth newHeight of
                None \<Rightarrow> Inl ''Failed to process image''
              | Some n \<Rightarrow>
                  Inr \<lparr>file = \<lparr>name = name f, ftype = ftype f, fsize = n\<rparr>,
                       width = newWidth, height = newHeight,
                       aspectRatio = fdiv newWidth newHeight\<rparr>))"

record moderation =
  approved :: bool
  reason :: "string option"

definition moderateImage :: "File \<Rightarrow> moderation" where
  "moderateImage f = \<lparr>approved = True, reason = None\<rparr>"

section \<open>storageUtils.ts: batch intake\<close>

text \<open>
  \<open>MediaFile\<close> has the fields of \<open>ProcessedImage\<close> and seven more.  The identifier field
  \<open>id\<close> is written \<open>id'\<close>.
\<close>

record MediaFile = ProcessedImage +
  id' :: string
  src :: string
  caption :: "string option"
  alt :: "string option"
  uploadProgress :: "rat option"
  isUploading :: "bool option"
  cloudUrl :: "string option"

text \<open>
  The remote store's answer to one upload: \<open>draws\<close> are the values of \<open>Math.random()\<close>
  taken by the progress timer while the call is outstanding.
\<close>

datatype upload_result = Uploaded string | UploadError string

record upload_env =
  draws :: "rat list"
  result :: upload_result

text \<open>
  \<open>uploadFileToCloud\<close> returns the values handed to its progress callback, whether it
  logged the failure, and the public URL (\<open>Inr\<close>) or the message of the error thrown
  (\<open>Inl\<close>).  The storage path built from user, project and a generated file name is
  consumed by the store only.
\<close>

definition uploadFileToCloud ::
  "bool \<Rightarrow> upload_env \<Rightarrow> File \<Rightarrow> string \<Rightarrow> string \<Rightarrow> rat list \<times> (string + string)" where
  "uploadFileToCloud cloud env f userId projectId =
     (if \<not> cloud then ([], Inl ''Cloud storage not available'')
      else
        let progs = map (\<lambda>r. min 90 (r * 80 + 10)) (draws env)
        in case result env of
             UploadError msg \<Rightarrow> (progs, Inl (''Failed to upload '' @ name f @ '': '' @ msg))
           | Uploaded publicUrl \<Rightarrow> (progs @ [100], Inr publicUrl))"

text \<open>
  Everything the intake does that its caller or the browser can observe, in order.
\<close>

datatype event =
    OnProgress string rat bool
  | OnComplete "MediaFile list"
  | OnError string
  | CallProcessImage File
  | CallModerateImage File
  | CallUpload File
  | CreateObjectURL string
  | StartProgressTimer string
  | ConsoleWarn string
  | ConsoleError string

text \<open>Which of the three optional callbacks the caller supplied.\<close>

record callbacks =
  onProgress :: bool
  onComplete :: bool
  onError :: bool

text \<open>
  The outcomes, for the file at one position of the batch, of every call that leaves the
  program: the clock, the image pipeline, the token of the object URL the browser hands
  out, and the upload.
\<close>

record file_env =
  now :: nat
  img :: image_env
  blob_token :: string
  upload :: upload_env

definition createObjectURL :: "string \<Rightarrow> string" where
  "createObjectURL token = ''blob:'' @ token"

definition progress :: "callbacks \<Rightarrow> string \<Rightarrow> rat \<Rightarrow> bool \<Rightarrow> event list" where
  "progress cb fileId p u = (if onProgress cb then [OnProgress fileId p u] else [])"

text \<open>
  The timer of the local path: it starts at 30, adds 20 every 100 ms, reports, and stops
  once it has reached 100.
\<close>

definition localProgressTicks :: "callbacks \<Rightarrow> string \<Rightarrow> event list" where
  "localProgressTicks cb fileId = concat (map (\<lambda>p. progress cb fileId p (p < 100)) [50, 70, 90, 110])"

text \<open>
  The storage step of one iteration (the \<open>if (isCloudStorageAvailable())\<close> statement):
  it assigns the display locator of the entry and reports progress.
\<close>

definition storeFile ::
  "bool \<Rightarrow> callbacks \<Rightarrow> string \<Rightarrow> string \<Rightarrow> file_env \<Rightarrow> string \<Rightarrow> string \<Rightarrow> MediaFile
     \<Rightarrow> MediaFile \<times> event list" where
  "storeFile cloud cb userId projectId e fileId fileName mediaFile =
     (let localUrl = createObjectURL (blob_token e)
      in if cloud then
           (let (progs, res) = uploadFileToCloud cloud (upload e) (file mediaFile) userId projectId;
                evs = progress cb fileId 30 True @ [CallUpload (file mediaFile)]
                        @ concat (map (\<lambda>p. progress cb fileId (max 30 p) True) progs)
            in (case res of
                  Inr url \<Rightarrow>
                    (mediaFile\<lparr>src := url, cloudUrl := Some url, isUploading := Some False,
                               uploadProgress := Some 100\<rparr>,
                     evs @ progress cb fileId 100 False)
                | Inl uploadError \<Rightarrow>
                    (mediaFile\<lparr>src := localUrl, isUploading := Some False,
                               uploadProgress := Some 100\<rparr>,
                     evs @ [ConsoleError ''Upload failed:'',
                            ConsoleWarn (''Cloud upload failed for '' @ fileName
                                         @ '', falling back to local storage:''),
                            CreateObjectURL localUrl]
                         @ progress cb fileId 100 False)))
         else
           (mediaFile\<lparr>src := localUrl, isUploading := Some False, uploadProgress := Some 100\<rparr>,
            [CreateObjectURL localUrl, StartProgressTimer fileId]))"

text \<open>
  One iteration of the loop over the batch.  The source pushes the entry to \<open>newFiles\<close>
  before the storage step and then assigns its fields in place; the model appends the
  entry as it stands when the iteration ends.
\<close>

text \<open>\<open>Date.now().toString() + i\<close>\<close>

definition fileIdAt :: "file_env \<Rightarrow> nat \<Rightarrow> string" where
  "fileIdAt e i = nat_toString (now e) @ nat_toString i"

definition newMediaFile :: "string \<Rightarrow> ProcessedImage \<Rightarrow> MediaFile" where
  "newMediaFile fileId processedImage =
     \<lparr>file = file processedImage, width = width processedImage,
      height = height processedImage, aspectRatio = aspectRatio processedImage,
      id' = fileId, src = [], caption = None, alt = None,
      uploadProgress = Some 0, isUploading = Some True, cloudUrl = None\<rparr>"

definition moderationMessage :: "string \<Rightarrow> moderation \<Rightarrow> string" where
  "moderationMessage fileName m =
     fileName @ '': '' @
       (case reason m of
          None \<Rightarrow> ''Content not approved''
        | Some r \<Rightarrow> if r = [] then ''Content not approved'' else r)"

definition intakeFile ::
  "bool \<Rightarrow> callbacks \<Rightarrow> string \<Rightarrow> string \<Rightarrow> file_env \<Rightarrow> nat \<Rightarrow> File
     \<Rightarrow> MediaFile list \<times> string list \<times> event list
     \<Rightarrow> MediaFile list \<times> string list \<times> event list" where
  "intakeFile cloud cb userId projectId e i f st =
     (let (newFiles, errors, evs) = st;
          fileId = fileIdAt e i;
          validation = validateImageFile f
      in if \<not> isValid validation
         then (newFiles, errors @ [case_option [] (\<lambda>m. m) (error validation)], evs)
         else
           (let evs1 = evs @ progress cb fileId 10 True @ [CallProcessImage f]
            in (case processImage (img e) f of
                  Inl err \<Rightarrow>
                    (newFiles, errors @ [name f @ '': Failed to process image''],
                     evs1 @ [ConsoleError (''Failed to process '' @ name f @ '':'')])
                | Inr processedImage \<Rightarrow>
                    (let evs2 = evs1 @ progress cb fileId 20 True
                                  @ [CallModerateImage (file processedImage)];
                         moderationResult = moderateImage (file processedImage)
                     in if \<not> approved moderationResult
                        then (newFiles, errors @ [moderationMessage (name f) moderationResult], evs2)
                        else
                          (let (mediaFile, evs3) =
                                 storeFile cloud cb userId projectId e fileId (name f)
                                   (newMediaFile fileId processedImage)
                           in (newFiles @ [mediaFile], errors, evs2 @ evs3))))))"

text \<open>What one iteration adds to the three accumulators.\<close>

definition intakeOne ::
  "bool \<Rightarrow> callbacks \<Rightarrow> string \<Rightarrow> string \<Rightarrow> file_env \<Rightarrow> nat \<Rightarrow> File
     \<Rightarrow> MediaFile list \<times> string list \<times> event list" where
  "intakeOne cloud cb userId projectId e i f = intakeFile cloud cb userId projectId e i f ([], [], [])"

fun intakeLoop ::
  "bool \<Rightarrow> callbacks \<Rightarrow> string \<Rightarrow> string \<Rightarrow> (nat \<Rightarrow> file_env) \<Rightarrow> nat \<Rightarrow> File list
     \<Rightarrow> MediaFile list \<times> string list \<times> event list
     \<Rightarrow> MediaFile list \<times> string list \<times> event list" where
  "intakeLoop cloud cb userId projectId env i [] st = st"
| "intakeLoop cloud cb userId projectId env i (f # fs) st =
     intakeLoop cloud cb userId projectId env (Suc i) fs
       (intakeFile cloud cb userId projectId (env i) i f st)"

definition maxFiles :: nat where
  "maxFiles = 12"

definition capMessage :: "nat \<Rightarrow> string" where
  "capMessage existing =
     ''Maximum '' @ nat_toString maxFiles @ '' files allowed. You can add ''
       @ int_toString (int maxFiles - int existing) @ '' more files.''"

definition processAndUploadFiles ::
  "bool \<Rightarrow> callbacks \<Rightarrow> (nat \<Rightarrow> file_env) \<Rightarrow> File list \<Rightarrow> string \<Rightarrow> string
     \<Rightarrow> MediaFile list \<Rightarrow> event list" where
  "processAndUploadFiles cloud cb env files userId projectId existingFiles =
     (if length existingFiles + length files > maxFiles
      then (if onError cb then [OnError (capMessage (length existingFiles))] else [])
      else
        case intakeLoop cloud cb userId projectId env 0 files ([], [], []) of
          (newFiles, errors, evs) \<Rightarrow>
            evs
            @ (if errors \<noteq> [] \<and> onError cb then [OnError (joinStrings [CHR 0x0A] errors)] else [])
            @ (if newFiles \<noteq> [] \<and> onComplete cb then [OnComplete newFiles] else []))"

text \<open>Reading a run: the batches handed to the completion callback, and the error messages.\<close>

fun completed :: "event list \<Rightarrow> MediaFile list" where
  "completed [] = []"
| "completed (OnComplete ms # evs) = ms @ completed evs"
| "completed (ev # evs) = completed evs"

fun errorMessages :: "event list \<Rightarrow> string list" where
  "errorMessages [] = []"
| "errorMessages (OnError m # evs) = m # errorMessages evs"
| "errorMessages (ev # evs) = errorMessages evs"

section \<open>ProjectStepper.tsx: the media list of the component\<close>







section \<open>AutoLayout.tsx: manual reordering and removal\<close>

text \<open>\<open>findIndex\<close> answers \<open>None\<close> where the source answers \<open>-1\<close>.\<close>

fun findIndex :: "('a \<Rightarrow> bool) \<Rightarrow> 'a list \<Rightarrow> nat option" where
  "findIndex P [] = None"
| "findIndex P (x # xs) = (if P x then Some 0 else map_option Suc (findIndex P xs))"

text \<open>\<open>xs.splice(i, 1)\<close> and \<open>xs.splice(i, 0, x)\<close>: the array they leave behind.\<close>

definition spliceOut :: "nat \<Rightarrow> 'a list \<Rightarrow> 'a list" where
  "spliceOut i xs = take i xs @ drop (Suc i) xs"

definition spliceIn :: "nat \<Rightarrow> 'a \<Rightarrow> 'a list \<Rightarrow> 'a list" where
  "spliceIn i x xs = take i xs @ x # drop i xs"

text \<open>
  \<open>handleDrop\<close> answers the list it hands to \<open>onReorder\<close>, \<open>None\<close> when it returns
  without calling it.  \<open>draggedItem\<close> is the component state set by \<open>handleDragStart\<close>;
  the empty string is falsy like \<open>null\<close>.
\<close>

definition handleDrop ::
  "bool \<Rightarrow> string option \<Rightarrow> MediaFile list \<Rightarrow> string \<Rightarrow> MediaFile list option" where
  "handleDrop hasOnReorder draggedItem files targetId =
     (case draggedItem of
        None \<Rightarrow> None
      | Some d \<Rightarrow>
          if d = [] \<or> d = targetId \<or> \<not> hasOnReorder then None
          else (case findIndex (\<lambda>f. id' f = d) files of
                  None \<Rightarrow> None
                | Some draggedIndex \<Rightarrow>
                    (case findIndex (\<lambda>f. id' f = targetId) files of
                       None \<Rightarrow> None
                     | Some targetIndex \<Rightarrow>
                         Some (spliceIn targetIndex (files ! draggedIndex)
                                 (spliceOut draggedIndex files)))))"

definition removeFile :: "bool \<Rightarrow> MediaFile list \<Rightarrow> string \<Rightarrow> MediaFile list option" where
  "removeFile hasOnReorder files fileId =
     (if \<not> hasOnReorder then None else Some (filter (\<lambda>f. id' f \<noteq> fileId) files))"

section \<open>storageUtils.ts and the owning component: releasing local references\<close>

text \<open>\<open>cleanupObjectUrls\<close> answers the URLs it passes to \<open>URL.revokeObjectURL\<close>, in order.\<close>

definition truthy :: "string option \<Rightarrow> bool" where
  "truthy s = (case s of None \<Rightarrow> False | Some v \<Rightarrow> v \<noteq> [])"

definition cleanupObjectUrls :: "MediaFile list \<Rightarrow> string list" where
  "cleanupObjectUrls files =
     map src (filter (\<lambda>f. startsWith (src f) ''blob:'' \<and> \<not> truthy (cloudUrl f)) files)"

text \<open>
  The component that owns the media list (the stepper and the dashboard have the same
  code): its state \<open>mediaFiles\<close>, and the log of the calls to \<open>URL.revokeObjectURL\<close>.
  The component registers
  \<^verbatim>\<open>useEffect(() => () => { if (mediaFiles.length > 0) cleanupObjectUrls(mediaFiles) }, [mediaFiles])\<close>
  so the cleanup, closed over the list of the render that registered it, runs whenever a
  render commits another list and when the component unmounts.  The gallery is given
  \<open>onReorder = setMediaFiles\<close>.
\<close>

record component =
  mediaFiles :: "MediaFile list"
  revoked :: "string list"

definition effectCleanup :: "MediaFile list \<Rightarrow> string list" where
  "effectCleanup files = (if length files > 0 then cleanupObjectUrls files else [])"

definition setMediaFiles :: "MediaFile list \<Rightarrow> component \<Rightarrow> component" where
  "setMediaFiles files c =
     \<lparr>mediaFiles = files, revoked = revoked c @ effectCleanup (mediaFiles c)\<rparr>"

definition removeFromGallery :: "string \<Rightarrow> component \<Rightarrow> component" where
  "removeFromGallery fileId c =
     (case removeFile True (mediaFiles c) fileId of
        None \<Rightarrow> c
      | Some files \<Rightarrow> setMediaFiles files c)"

definition unmount :: "component \<Rightarrow> string list" where
  "unmount c = revoked c @ effectCleanup (mediaFiles c)"

section \<open>exportUtils: the document renderer\<close>

record ProjectData =
  title :: string
  abstract :: string
  sections :: "(string \<times> string) list"
  citations :: "string list"

text \<open>
  The document is the sequence of calls made on the jsPDF object.  \<open>Text size style s\<close>
  is \<open>pdf.text(s, ..)\<close> under the font size and style set just before it;
  \<open>WrappedText\<close> is \<open>pdf.text(pdf.splitTextToSize(s, contentWidth), ..)\<close>.  Coordinates are
  left out.  The page breaks inside the loops depend on the page size and on the line
  counts that jsPDF reports, so the decisions are taken from the environment, as are the
  outcome of reading the \<open>i\<close>-th image file and of embedding it.
\<close>

datatype pdf_call =
    AddPage
  | Text nat string string
  | WrappedText nat string string
  | AddImage string string
  | LogError string
  | Save string

record pdf_env =
  sectionBreak :: "nat \<Rightarrow> bool"
  imageBreak :: "nat \<Rightarrow> bool"
  readFile :: "nat \<Rightarrow> string option"
  embeds :: "nat \<Rightarrow> bool"

definition captionOrName :: "MediaFile \<Rightarrow> string" where
  "captionOrName m = (if truthy (caption m) then case_option [] (\<lambda>c. c) (caption m) else name (file m))"

fun pdfSections :: "pdf_env \<Rightarrow> nat \<Rightarrow> (string \<times> string) list \<Rightarrow> pdf_call list" where
  "pdfSections env k [] = []"
| "pdfSections env k ((t, c) # rest) =
     (if sectionBreak env k then [AddPage] else [])
     @ [Text 14 ''bold'' t, WrappedText 11 ''normal'' c]
     @ pdfSections env (Suc k) rest"

definition figureCaption :: "nat \<Rightarrow> MediaFile \<Rightarrow> string" where
  "figureCaption i m = ''Figure '' @ nat_toString (i + 1) @ '': '' @ captionOrName m"

definition pdfFigure :: "pdf_env \<Rightarrow> nat \<Rightarrow> MediaFile \<Rightarrow> pdf_call list" where
  "pdfFigure env i m =
     (case readFile env i of
        None \<Rightarrow> [LogError (''Failed to add image '' @ name (file m) @ '' to PDF:'')]
      | Some imageDataURL \<Rightarrow>
          (if imageBreak env i then [AddPage] else [])
          @ (if embeds env i
             then [AddImage imageDataURL ''JPEG'', WrappedText 10 ''italic'' (figureCaption i m)]
             else [LogError (''Failed to add image '' @ name (file m) @ '' to PDF:'')]))"

fun pdfFigureLoop :: "pdf_env \<Rightarrow> nat \<Rightarrow> MediaFile list \<Rightarrow> pdf_call list" where
  "pdfFigureLoop env i [] = []"
| "pdfFigureLoop env i (m # ms) = pdfFigure env i m @ pdfFigureLoop env (Suc i) ms"

definition pdfFigures :: "pdf_env \<Rightarrow> MediaFile list \<Rightarrow> pdf_call list" where
  "pdfFigures env ms =
     (if length ms > 0
      then [AddPage, Text 16 ''bold'' ''Figures''] @ pdfFigureLoop env 0 ms
      else [])"

definition pdfReferences :: "string list \<Rightarrow> pdf_call list" where
  "pdfReferences cs =
     (if length cs > 0
      then [AddPage, Text 16 ''bold'' ''References'']
           @ map (\<lambda>(index, citation). WrappedText 10 ''normal''
                    (nat_toString (index + 1) @ ''. '' @ citation)) (enumerate 0 cs)
      else [])"

definition exportToPDF :: "pdf_env \<Rightarrow> ProjectData \<Rightarrow> MediaFile list \<Rightarrow> pdf_call list" where
  "exportToPDF env projectData ms =
     [Text 20 ''bold'' (title projectData), WrappedText 12 ''normal'' (abstract projectData)]
     @ pdfSections env 0 (sections projectData)
     @ pdfFigures env ms
     @ pdfReferences (citations projectData)
     @ [Save (pdfFileName (title projectData))]"

text \<open>The figure captions and the headings of a document, in the order they are written.\<close>

fun captionsOf :: "pdf_call list \<Rightarrow> string list" where
  "captionsOf [] = []"
| "captionsOf (WrappedText n st s # cs) =
     (if n = 10 \<and> st = ''italic'' then s # captionsOf cs else captionsOf cs)"
| "captionsOf (c # cs) = captionsOf cs"

fun headingsOf :: "pdf_call list \<Rightarrow> string list" where
  "headingsOf [] = []"
| "headingsOf (Text n st s # cs) =
     (if n = 16 \<and> st = ''bold'' then s # headingsOf cs else headingsOf cs)"
| "headingsOf (c # cs) = headingsOf cs"

fun referencesOf :: "pdf_call list \<Rightarrow> string list" where
  "referencesOf [] = []"
| "referencesOf (WrappedText n st s # cs) =
     (if n = 10 \<and> st = ''normal'' then s # referencesOf cs else referencesOf cs)"
| "referencesOf (c # cs) = referencesOf cs"

section \<open>Sample inputs\<close>

text \<open>Concrete files, entries and environments, used to instantiate the theorems below.\<close>

definition sampleFile :: File where
  "sampleFile = \<lparr>name = ''lab-results.png'', ftype = ''image/png'', fsize = 204800\<rparr>"

definition sampleEntry :: MediaFile where
  "sampleEntry =
     \<lparr>file = \<lparr>name = ''old.png'', ftype = ''image/png'', fsize = 1000\<rparr>,
      width = Num 4, height = Num 2, aspectRatio = Num 2,
      id' = ''16990'', src = ''blob:old'', caption = None, alt = None,
      uploadProgress = Some 100, isUploading = Some False, cloudUrl = None\<rparr>"

definition allCallbacks :: callbacks where
  "allCallbacks = \<lparr>onProgress = True, onComplete = True, onError = True\<rparr>"

text \<open>An 800 x 600 image that decodes and re-encodes; the remote store refuses the upload.\<close>

definition offlineEnv :: "nat \<Rightarrow> file_env" where
  "offlineEnv i =
     \<lparr>now = 1700, img = \<lparr>decode = Some (800, 600), encode = Some 1024\<rparr>,
      blob_token = ''tok'', upload = \<lparr>draws = [1 / 2], result = UploadError ''network''\<rparr>\<rparr>"



definition bigFile :: File where
  "bigFile = \<lparr>name = ''big.png'', ftype = ''image/png'', fsize = 10485761\<rparr>"

definition gifFile :: File where
  "gifFile = \<lparr>name = ''anim.gif'', ftype = ''image/gif'', fsize = 2048\<rparr>"

definition exeFile :: File where
  "exeFile = \<lparr>name = ''setup.EXE.png'', ftype = ''image/png'', fsize = 2048\<rparr>"

text \<open>The same image; the upload at position 0 is refused, every other one succeeds.\<close>

definition mixedEnv :: "nat \<Rightarrow> file_env" where
  "mixedEnv i =
     \<lparr>now = 1700, img = \<lparr>decode = Some (800, 600), encode = Some 1024\<rparr>,
      blob_token = ''tok'',
      upload = \<lparr>draws = [],
                result = (if i = 0 then UploadError ''network''
                          else Uploaded ''https://store.example/p/1.png'')\<rparr>\<rparr>"

text \<open>Three local-only entries, as a media list.\<close>

definition entryA :: MediaFile where
  "entryA = sampleEntry\<lparr>id' := ''a'', src := ''blob:a''\<rparr>"

definition entryB :: MediaFile where
  "entryB = sampleEntry\<lparr>id' := ''b'', src := ''blob:b''\<rparr>"

definition entryC :: MediaFile where
  "entryC = sampleEntry\<lparr>id' := ''c'', src := ''blob:c''\<rparr>"

text \<open>A project, a page environment in which every image embeds, and one in which no file can be read.\<close>

definition sampleProject :: ProjectData where
  "sampleProject =
     \<lparr>title = ''My Project'', abstract = ''A study.'',
      sections = [(''1. Introduction'', ''Why.''), (''2. Methodology'', ''How.'')],
      citations = [''Smith, J. (2023).'', ''Brown, M. (2023).'']\<rparr>"

definition goodPdfEnv :: pdf_env where
  "goodPdfEnv =
     \<lparr>sectionBreak = (\<lambda>k. False), imageBreak = (\<lambda>i. i = 1),
      readFile = (\<lambda>i. Some ''data:image/png;base64,AAAA''), embeds = (\<lambda>i. True)\<rparr>"

definition unreadablePdfEnv :: pdf_env where
  "unreadablePdfEnv =
     \<lparr>sectionBreak = (\<lambda>k. False), imageBreak = (\<lambda>i. False),
      readFile = (\<lambda>i. None), embeds = (\<lambda>i. True)\<rparr>"

text \<open>
  Decoded images: 800 x 600, 4000 x 3000, 2080 x 1027 and 4001 x 1, with an encoder that
  delivers 1024 bytes for every bitmap that has pixels.
\<close>

definition smallImage :: image_env where
  "smallImage = \<lparr>decode = Some (800, 600), encode = Some 1024\<rparr>"

definition largeImage :: image_env where
  "largeImage = \<lparr>decode = Some (4000, 3000), encode = Some 1024\<rparr>"

definition tieImage :: image_env where
  "tieImage = \<lparr>decode = Some (2080, 1027), encode = Some 1024\<rparr>"

definition stripImage :: image_env where
  "stripImage = \<lparr>decode = Some (4001, 1), encode = Some 1024\<rparr>"

section \<open>Properties of the string helpers\<close>

lemma startsWith_iff: "startsWith s p \<longleftrightarrow> (\<exists>ss. s = p @ ss)"
  by (induction s p rule: startsWith.induct) auto

lemma str_includes_iff: "str_includes s t \<longleftrightarrow> (\<exists>ps ss. s = ps @ t @ ss)"
proof (induction s)
  case Nil
  then show ?case by auto
next
  case (Cons c cs)
  show ?case
  proof
    assume "str_includes (c # cs) t"
    then consider "startsWith (c # cs) t" | "str_includes cs t" by auto
    then show "\<exists>ps ss. c # cs = ps @ t @ ss"
    proof cases
      case 1
      then obtain ss where "c # cs = t @ ss" by (auto simp: startsWith_iff)
      then have "c # cs = [] @ t @ ss" by simp
      then show ?thesis by blast
    next
      case 2
      then obtain ps ss where "cs = ps @ t @ ss" using Cons.IH by auto
      then have "c # cs = (c # ps) @ t @ ss" by simp
      then show ?thesis by blast
    qed
  next
    assume "\<exists>ps ss. c # cs = ps @ t @ ss"
    then obtain ps ss where eq: "c # cs = ps @ t @ ss" by auto
    show "str_includes (c # cs) t"
    proof (cases ps)
      case Nil
      then have "startsWith (c # cs) t" using eq by (auto simp: startsWith_iff)
      then show ?thesis by simp
    next
      case (Cons p ps')
      then have "cs = ps' @ t @ ss" using eq by simp
      then have "str_includes cs t" using Cons.IH by blast
      then show ?thesis by simp
    qed
  qed
qed

lemma includes_lower_iff:
  "str_includes (toLowerCase c) k \<longleftrightarrow> (\<exists>ps u ss. c = ps @ u @ ss \<and> toLowerCase u = k)"
  unfolding str_includes_iff toLowerCase_def
  by (metis append_eq_map_conv)






section \<open>The placement heuristic\<close>

lemma getSectionPlacement_cases:
  "getSectionPlacement c =
     (if intro_keyword c then ''introduction''
      else if method_keyword c then ''methodology'' else ''results'')"
  by (simp add: getSectionPlacement_def intro_keyword_def method_keyword_def Let_def)

text \<open>
  C4, as stated, fails: a caption that contains \<open>chart\<close> is classified as \<open>methodology\<close>
  when it also contains \<open>process\<close>, and a caption that contains \<open>approach\<close> is classified
  as \<open>introduction\<close> when it also contains \<open>overview\<close>.
\<close>

theorem chart_caption_counterexample:
  "str_includes (toLowerCase ''Process chart'') ''chart''
   \<and> getSectionPlacement ''Process chart'' = ''methodology''
   \<and> getSectionPlacement ''Process chart'' \<noteq> ''results''
   \<and> str_includes (toLowerCase ''Overview of approach'') ''approach''
   \<and> getSectionPlacement ''Overview of approach'' = ''introduction''
   \<and> getSectionPlacement ''Overview of approach'' \<noteq> ''methodology''"
  by code_simp

text \<open>
  C4, amended: \<open>getSectionPlacement\<close> is a function of the caption text alone; a caption
  that contains \<open>chart\<close> in any letter case, and no introduction or methodology keyword,
  classifies as \<open>results\<close>; a caption that contains \<open>approach\<close>, and no introduction
  keyword, classifies as \<open>methodology\<close>; a caption with none of the keywords classifies
  as \<open>results\<close>.
\<close>

theorem placement_by_keyword:
  "(str_includes (toLowerCase c) ''chart'' \<and> \<not> intro_keyword c \<and> \<not> method_keyword c
      \<longrightarrow> getSectionPlacement c = ''results'')
   \<and> (str_includes (toLowerCase c) ''approach'' \<and> \<not> intro_keyword c
      \<longrightarrow> getSectionPlacement c = ''methodology'')
   \<and> (\<not> intro_keyword c \<and> \<not> method_keyword c \<and> \<not> results_keyword c
      \<longrightarrow> getSectionPlacement c = ''results'')"
  by (simp add: getSectionPlacement_cases method_keyword_def)

theorem placement_by_keyword_witness:
  "(str_includes (toLowerCase ''Pie CHART'') ''chart'' \<and> \<not> intro_keyword ''Pie CHART''
      \<and> \<not> method_keyword ''Pie CHART'' \<and> getSectionPlacement ''Pie CHART'' = ''results'')
   \<and> (str_includes (toLowerCase ''Our Approach'') ''approach'' \<and> \<not> intro_keyword ''Our Approach''
      \<and> getSectionPlacement ''Our Approach'' = ''methodology'')
   \<and> (\<not> intro_keyword ''Photo 1'' \<and> \<not> method_keyword ''Photo 1'' \<and> \<not> results_keyword ''Photo 1''
      \<and> getSectionPlacement ''Photo 1'' = ''results'')"
  using placement_by_keyword [of "''Pie CHART''"] placement_by_keyword [of "''Our Approach''"]
    placement_by_keyword [of "''Photo 1''"]
  by code_simp

text \<open>
  C10: \<open>getSectionPlacement\<close> always answers one of \<open>introduction\<close>, \<open>methodology\<close>,
  \<open>results\<close>; an introduction keyword wins over every other keyword, a methodology
  keyword wins over the results keywords, and everything else is \<open>results\<close>.
\<close>

theorem placement_total_and_ordered:
  "getSectionPlacement c \<in> {''introduction'', ''methodology'', ''results''}
   \<and> (intro_keyword c \<longrightarrow> getSectionPlacement c = ''introduction'')
   \<and> (\<not> intro_keyword c \<and> method_keyword c \<longrightarrow> getSectionPlacement c = ''methodology'')
   \<and> (\<not> intro_keyword c \<and> \<not> method_keyword c \<longrightarrow> getSectionPlacement c = ''results'')"
  by (simp add: getSectionPlacement_cases)

theorem placement_total_and_ordered_witness:
  "(intro_keyword ''Background method data'' \<and> method_keyword ''Background method data''
      \<and> results_keyword ''Background method data''
      \<and> getSectionPlacement ''Background method data'' = ''introduction'')
   \<and> (\<not> intro_keyword ''Graph of the process'' \<and> method_keyword ''Graph of the process''
      \<and> results_keyword ''Graph of the process''
      \<and> getSectionPlacement ''Graph of the process'' = ''methodology'')
   \<and> (\<not> intro_keyword ''Team photo'' \<and> \<not> method_keyword ''Team photo''
      \<and> getSectionPlacement ''Team photo'' = ''results'')"
  using placement_total_and_ordered [of "''Background method data''"]
    placement_total_and_ordered [of "''Graph of the process''"]
    placement_total_and_ordered [of "''Team photo''"]
  by code_simp

section \<open>Download names\<close>













section \<open>Batch intake\<close>

lemma storeFile_fst:
  "fst (storeFile cloud cb u p e fid fname m) =
     (if cloud then
        (case result (upload e) of
           Uploaded url \<Rightarrow>
             m\<lparr>src := url, cloudUrl := Some url, isUploading := Some False,
               uploadProgress := Some 100\<rparr>
         | UploadError msg \<Rightarrow>
             m\<lparr>src := createObjectURL (blob_token e), isUploading := Some False,
               uploadProgress := Some 100\<rparr>)
      else m\<lparr>src := createObjectURL (blob_token e), isUploading := Some False,
             uploadProgress := Some 100\<rparr>)"
  by (simp add: storeFile_def uploadFileToCloud_def Let_def split: upload_result.splits)

lemma intakeFile_acc:
  "intakeFile cloud cb u p e i f (nf, er, ev) =
     (case intakeOne cloud cb u p e i f of (a, b, d) \<Rightarrow> (nf @ a, er @ b, ev @ d))"
  by (simp add: intakeFile_def intakeOne_def Let_def split: sum.splits prod.splits)

lemma intakeLoop_acc:
  "intakeLoop cloud cb u p env k fs (nf, er, ev) =
     (case intakeLoop cloud cb u p env k fs ([], [], []) of (a, b, d) \<Rightarrow> (nf @ a, er @ b, ev @ d))"
proof (induction fs arbitrary: k nf er ev)
  case Nil
  then show ?case by simp
next
  case (Cons f fs)
  obtain a b d where one: "intakeOne cloud cb u p (env k) k f = (a, b, d)"
    by (cases "intakeOne cloud cb u p (env k) k f") auto
  obtain a' b' d' where rest: "intakeLoop cloud cb u p env (Suc k) fs ([], [], []) = (a', b', d')"
    by (cases "intakeLoop cloud cb u p env (Suc k) fs ([], [], [])") auto
  have l: "intakeLoop cloud cb u p env (Suc k) fs (nf @ a, er @ b, ev @ d) = ((nf @ a) @ a', (er @ b) @ b', (ev @ d) @ d')"
    using Cons.IH[of "Suc k" "nf @ a" "er @ b" "ev @ d"] rest by simp
  have r: "intakeLoop cloud cb u p env (Suc k) fs (a, b, d) = (a @ a', b @ b', d @ d')"
    using Cons.IH[of "Suc k" a b d] rest by simp
  show ?case
    using one l r by (simp add: intakeFile_acc[of _ _ _ _ _ _ _ nf er ev] intakeFile_acc[of _ _ _ _ _ _ _ "[]" "[]" "[]"])
qed

lemma intakeLoop_Cons:
  "intakeLoop cloud cb u p env k (f # fs) ([], [], []) =
     (case intakeOne cloud cb u p (env k) k f of (a, b, d) \<Rightarrow>
        (case intakeLoop cloud cb u p env (Suc k) fs ([], [], []) of (a', b', d') \<Rightarrow>
           (a @ a', b @ b', d @ d')))"
proof -
  obtain a b d where one: "intakeOne cloud cb u p (env k) k f = (a, b, d)"
    by (cases "intakeOne cloud cb u p (env k) k f") auto
  have "intakeLoop cloud cb u p env k (f # fs) ([], [], []) = intakeLoop cloud cb u p env (Suc k) fs (a, b, d)"
    using one by (simp add: intakeOne_def)
  then show ?thesis using one intakeLoop_acc[of cloud cb u p env "Suc k" fs a b d] by simp
qed

lemma intakeOne_invalid:
  "\<not> isValid (validateImageFile f) \<Longrightarrow>
   intakeOne cloud cb u p e i f = ([], [case_option [] (\<lambda>m. m) (error (validateImageFile f))], [])"
  by (simp add: intakeOne_def intakeFile_def Let_def)

lemma intakeOne_failed:
  "isValid (validateImageFile f) \<Longrightarrow> processImage (img e) f = Inl err \<Longrightarrow>
   fst (intakeOne cloud cb u p e i f) = [] \<and>
   fst (snd (intakeOne cloud cb u p e i f)) = [name f @ '': Failed to process image'']"
  by (simp add: intakeOne_def intakeFile_def Let_def)

lemma intakeOne_stored:
  "isValid (validateImageFile f) \<Longrightarrow> processImage (img e) f = Inr pimg \<Longrightarrow>
   fst (intakeOne cloud cb u p e i f)
     = [fst (storeFile cloud cb u p e (fileIdAt e i) (name f) (newMediaFile (fileIdAt e i) pimg))] \<and>
   fst (snd (intakeOne cloud cb u p e i f)) = []"
  by (simp add: intakeOne_def intakeFile_def Let_def moderateImage_def split: prod.splits)

lemma errorMessages_append: "errorMessages (xs @ ys) = errorMessages xs @ errorMessages ys"
  by (induction xs rule: errorMessages.induct) auto

lemma completed_append: "completed (xs @ ys) = completed xs @ completed ys"
  by (induction xs rule: completed.induct) auto

lemma progress_quiet: "errorMessages (progress cb fid q b) = [] \<and> completed (progress cb fid q b) = []"
  by (simp add: progress_def)

lemma progress_list_quiet:
  "errorMessages (concat (map (\<lambda>q. progress cb fid (g q) b) qs)) = [] \<and>
   completed (concat (map (\<lambda>q. progress cb fid (g q) b) qs)) = []"
  by (induction qs) (auto simp: errorMessages_append completed_append progress_quiet)

lemma storeFile_quiet:
  "errorMessages (snd (storeFile cloud cb u p e fid fname m)) = [] \<and>
   completed (snd (storeFile cloud cb u p e fid fname m)) = []"
  by (auto simp: storeFile_def Let_def errorMessages_append completed_append progress_quiet
      progress_list_quiet split: prod.splits sum.splits)

lemma intakeOne_quiet:
  "errorMessages (snd (snd (intakeOne cloud cb u p e i f))) = [] \<and>
   completed (snd (snd (intakeOne cloud cb u p e i f))) = []"
  by (simp add: intakeOne_def intakeFile_def Let_def errorMessages_append completed_append
      progress_quiet storeFile_quiet case_prod_beta split: sum.splits)

lemma intakeOne_errors_indep:
  assumes "img e' = img e"
  shows "fst (snd (intakeOne cloud cb u p e i f)) = fst (snd (intakeOne cloud' cb' u' p' e' i' f))"
proof (cases "isValid (validateImageFile f)")
  case False
  then show ?thesis by (simp add: intakeOne_invalid)
next
  case True
  show ?thesis
  proof (cases "processImage (img e) f")
    case (Inl err)
    then show ?thesis using True assms intakeOne_failed[of f e err] intakeOne_failed[of f e' err] by simp
  next
    case (Inr pimg)
    then show ?thesis using True assms intakeOne_stored[of f e pimg] intakeOne_stored[of f e' pimg] by simp
  qed
qed

lemma intakeOne_length:
  "length (fst (intakeOne cloud cb u p e i f)) \<le> (if isValid (validateImageFile f) then 1 else 0)"
proof (cases "isValid (validateImageFile f)")
  case False
  then show ?thesis by (simp add: intakeOne_invalid)
next
  case True
  show ?thesis
  proof (cases "processImage (img e) f")
    case (Inl err)
    then show ?thesis using True intakeOne_failed[of f e err] by simp
  next
    case (Inr pimg)
    then show ?thesis using True intakeOne_stored[of f e pimg] by simp
  qed
qed

lemma intakeOne_entry:
  assumes "m \<in> set (fst (intakeOne cloud cb u p e i f))"
  shows "isValid (validateImageFile f) \<and>
         (\<exists>pimg. processImage (img e) f = Inr pimg \<and>
            m = fst (storeFile cloud cb u p e (fileIdAt e i) (name f) (newMediaFile (fileIdAt e i) pimg)))"
proof (cases "isValid (validateImageFile f)")
  case False
  then show ?thesis using assms by (simp add: intakeOne_invalid)
next
  case True
  show ?thesis
  proof (cases "processImage (img e) f")
    case (Inl err)
    then show ?thesis using True assms intakeOne_failed[of f e err] by simp
  next
    case (Inr pimg)
    then show ?thesis using True assms intakeOne_stored[of f e pimg] by simp
  qed
qed

lemma intakeLoop_quiet:
  "errorMessages (snd (snd (intakeLoop cloud cb u p env k fs ([], [], [])))) = [] \<and>
   completed (snd (snd (intakeLoop cloud cb u p env k fs ([], [], [])))) = []"
proof (induction fs arbitrary: k)
  case Nil
  then show ?case by simp
next
  case (Cons f fs)
  show ?case
    using Cons.IH[of "Suc k"] intakeOne_quiet[of cloud cb u p "env k" k f]
    by (simp add: intakeLoop_Cons case_prod_beta errorMessages_append completed_append del: intakeLoop.simps)
qed

lemma intakeLoop_length:
  "length (fst (intakeLoop cloud cb u p env k fs ([], [], [])))
     \<le> length (filter (\<lambda>f. isValid (validateImageFile f)) fs)"
proof (induction fs arbitrary: k)
  case Nil
  then show ?case by simp
next
  case (Cons f fs)
  show ?case
    using Cons.IH[of "Suc k"] intakeOne_length[of cloud cb u p "env k" k f]
    by (auto simp: intakeLoop_Cons case_prod_beta simp del: intakeLoop.simps split: if_splits)
qed

lemma intakeLoop_errors_indep:
  assumes "\<And>j. img (env' j) = img (env j)"
  shows "fst (snd (intakeLoop cloud cb u p env k fs ([], [], [])))
       = fst (snd (intakeLoop cloud' cb' u' p' env' k fs ([], [], [])))"
proof (induction fs arbitrary: k)
  case Nil
  then show ?case by simp
next
  case (Cons f fs)
  show ?case
    using Cons.IH[of "Suc k"] intakeOne_errors_indep[OF assms, of cloud cb u p k k f cloud' cb' u' p' k]
    by (simp add: intakeLoop_Cons case_prod_beta del: intakeLoop.simps)
qed

lemma intakeLoop_entry:
  assumes "m \<in> set (fst (intakeLoop cloud cb u p env k fs ([], [], [])))"
  shows "\<exists>j < length fs. isValid (validateImageFile (fs ! j)) \<and>
           (\<exists>pimg. processImage (img (env (k + j))) (fs ! j) = Inr pimg \<and>
              m = fst (storeFile cloud cb u p (env (k + j)) (fileIdAt (env (k + j)) (k + j))
                         (name (fs ! j)) (newMediaFile (fileIdAt (env (k + j)) (k + j)) pimg)))"
  using assms
proof (induction fs arbitrary: k)
  case Nil
  then show ?case by simp
next
  case (Cons f fs)
  from Cons.prems consider
      "m \<in> set (fst (intakeOne cloud cb u p (env k) k f))"
    | "m \<in> set (fst (intakeLoop cloud cb u p env (Suc k) fs ([], [], [])))"
    by (auto simp: intakeLoop_Cons case_prod_beta simp del: intakeLoop.simps)
  then show ?case
  proof cases
    case 1
    from intakeOne_entry[OF 1] show ?thesis
      by (intro exI[of _ 0]) simp
  next
    case 2
    from Cons.IH[OF 2] obtain j where "j < length fs" and
      "isValid (validateImageFile (fs ! j)) \<and>
           (\<exists>pimg. processImage (img (env (Suc k + j))) (fs ! j) = Inr pimg \<and>
              m = fst (storeFile cloud cb u p (env (Suc k + j)) (fileIdAt (env (Suc k + j)) (Suc k + j))
                         (name (fs ! j)) (newMediaFile (fileIdAt (env (Suc k + j)) (Suc k + j)) pimg)))"
      by blast
    then show ?thesis
      by (intro exI[of _ "Suc j"]) simp
  qed
qed

lemma intakeLoop_member:
  assumes "j < length fs" and "isValid (validateImageFile (fs ! j))"
    and "processImage (img (env (k + j))) (fs ! j) = Inr pimg"
  shows "fst (storeFile cloud cb u p (env (k + j)) (fileIdAt (env (k + j)) (k + j))
            (name (fs ! j)) (newMediaFile (fileIdAt (env (k + j)) (k + j)) pimg))
         \<in> set (fst (intakeLoop cloud cb u p env k fs ([], [], [])))"
  using assms
proof (induction fs arbitrary: k j)
  case Nil
  then show ?case by simp
next
  case (Cons f fs)
  show ?case
  proof (cases j)
    case 0
    then show ?thesis
      using Cons.prems intakeOne_stored[of f "env k" pimg cloud cb u p k]
      by (simp add: intakeLoop_Cons case_prod_beta del: intakeLoop.simps)
  next
    case (Suc j')
    then have "fst (storeFile cloud cb u p (env (Suc k + j')) (fileIdAt (env (Suc k + j')) (Suc k + j'))
            (name (fs ! j')) (newMediaFile (fileIdAt (env (Suc k + j')) (Suc k + j')) pimg))
         \<in> set (fst (intakeLoop cloud cb u p env (Suc k) fs ([], [], [])))"
      using Cons.prems by (intro Cons.IH) auto
    then show ?thesis using Suc
      by (simp add: intakeLoop_Cons case_prod_beta del: intakeLoop.simps)
  qed
qed

lemma nat_toString_12: "nat_toString 12 = ''12''"
  by code_simp

lemma run_within_cap:
  assumes "length existing + length files \<le> 12"
  shows "completed (processAndUploadFiles cloud cb env files u p existing)
           = (if onComplete cb then fst (intakeLoop cloud cb u p env 0 files ([], [], [])) else [])"
    and "errorMessages (processAndUploadFiles cloud cb env files u p existing)
           = (if fst (snd (intakeLoop cloud cb u p env 0 files ([], [], []))) \<noteq> [] \<and> onError cb
              then [joinStrings [CHR 0x0A] (fst (snd (intakeLoop cloud cb u p env 0 files ([], [], []))))]
              else [])"
  using assms intakeLoop_quiet[of cloud cb u p env 0 files]
  by (auto simp: processAndUploadFiles_def maxFiles_def case_prod_beta completed_append
      errorMessages_append)

lemma run_over_cap:
  assumes "length existing + length files > 12"
  shows "processAndUploadFiles cloud cb env files u p existing
           = (if onError cb
              then [OnError (''Maximum 12 files allowed. You can add ''
                      @ int_toString (12 - int (length existing)) @ '' more files.'')]
              else [])"
  using assms
  by (simp add: processAndUploadFiles_def maxFiles_def capMessage_def nat_toString_12)

lemma completed_length:
  "length (completed (processAndUploadFiles cloud cb env files u p existing))
     \<le> length (filter (\<lambda>g. isValid (validateImageFile g)) files)"
proof (cases "length existing + length files \<le> 12")
  case True
  then show ?thesis
    using intakeLoop_length[of cloud cb u p env 0 files] by (simp add: run_within_cap)
next
  case False
  then show ?thesis by (simp add: run_over_cap)
qed

lemma processImage_file:
  "processImage e f = Inr pimg \<Longrightarrow> name (file pimg) = name f \<and> ftype (file pimg) = ftype f"
  by (auto simp: processImage_def Let_def split: option.splits prod.splits)

lemma storeFile_local:
  "\<not> cloud \<or> result (upload e) = UploadError msg \<Longrightarrow>
   fst (storeFile cloud cb u p e fid fname m)
     = m\<lparr>src := createObjectURL (blob_token e), isUploading := Some False,
          uploadProgress := Some 100\<rparr>"
  by (auto simp: storeFile_fst)

lemma storeFile_fields:
  "file (fst (storeFile cloud cb u p e fid fname m)) = file m
   \<and> id' (fst (storeFile cloud cb u p e fid fname m)) = id' m
   \<and> isUploading (fst (storeFile cloud cb u p e fid fname m)) = Some False
   \<and> uploadProgress (fst (storeFile cloud cb u p e fid fname m)) = Some 100
   \<and> (src (fst (storeFile cloud cb u p e fid fname m)) = createObjectURL (blob_token e)
        \<or> result (upload e) = Uploaded (src (fst (storeFile cloud cb u p e fid fname m))))"
  by (cases "result (upload e)") (simp_all add: storeFile_fst)

lemma storeFile_warns:
  "cloud \<Longrightarrow> result (upload e) = UploadError msg \<Longrightarrow>
   ConsoleWarn (''Cloud upload failed for '' @ fname @ '', falling back to local storage:'')
     \<in> set (snd (storeFile cloud cb u p e fid fname m))"
  by (simp add: storeFile_def uploadFileToCloud_def Let_def)

lemma createObjectURL_nonempty: "createObjectURL t \<noteq> []"
  by (simp add: createObjectURL_def)

lemma validate_cases:
  "validateImageFile f =
     (if 10485760 < fsize f then
        \<lparr>isValid = False,
         error = Some (''File '' @ quoted (name f) @ '' is too large. Maximum size is 10MB.'')\<rparr>
      else if ftype f \<notin> {''image/jpeg'', ''image/jpg'', ''image/png'', ''image/webp''} then
        \<lparr>isValid = False,
         error = Some (''File '' @ quoted (name f) @
                       '' has unsupported format. Only JPG, PNG, and WebP are allowed.'')\<rparr>
      else if (\<exists>ext \<in> {''.exe'', ''.bat'', ''.cmd'', ''.scr'', ''.com'', ''.pif''}.
                 str_includes (toLowerCase (name f)) ext) then
        \<lparr>isValid = False,
         error = Some (''File '' @ quoted (name f) @
                       '' appears to be suspicious and cannot be uploaded.'')\<rparr>
      else \<lparr>isValid = True, error = None\<rparr>)"
  by (simp add: validateImageFile_def MAX_FILE_SIZE_def ALLOWED_MIME_TYPES_def
      suspiciousExtensions_def)

lemma completed_entry:
  assumes "m \<in> set (completed (processAndUploadFiles cloud cb env files u p existing))"
  shows "\<exists>j < length files. isValid (validateImageFile (files ! j)) \<and>
           (\<exists>pimg. processImage (img (env j)) (files ! j) = Inr pimg \<and>
              m = fst (storeFile cloud cb u p (env j) (fileIdAt (env j) j)
                         (name (files ! j)) (newMediaFile (fileIdAt (env j) j) pimg)))"
proof (cases "length existing + length files \<le> 12")
  case True
  then have "m \<in> set (fst (intakeLoop cloud cb u p env 0 files ([], [], [])))"
    using assms by (simp add: run_within_cap split: if_splits)
  from intakeLoop_entry[OF this] show ?thesis by simp
next
  case False
  then show ?thesis using assms by (simp add: run_over_cap split: if_splits)
qed

lemma completed_from_valid:
  assumes "m \<in> set (completed (processAndUploadFiles cloud cb env files u p existing))"
  shows "\<exists>g \<in> set files. isValid (validateImageFile g) \<and> name (file m) = name g
           \<and> ftype (file m) = ftype g"
proof -
  from completed_entry[OF assms] obtain j pimg where j: "j < length files"
    and v: "isValid (validateImageFile (files ! j))"
    and pi: "processImage (img (env j)) (files ! j) = Inr pimg"
    and m: "m = fst (storeFile cloud cb u p (env j) (fileIdAt (env j) j)
                         (name (files ! j)) (newMediaFile (fileIdAt (env j) j) pimg))"
    by blast
  have "file m = file pimg"
    using m storeFile_fields[of cloud cb u p "env j" "fileIdAt (env j) j" "name (files ! j)"
        "newMediaFile (fileIdAt (env j) j) pimg"]
    by (simp add: newMediaFile_def)
  then have "name (file m) = name (files ! j) \<and> ftype (file m) = ftype (files ! j)"
    using processImage_file[OF pi] by simp
  then show ?thesis using j v by (intro bexI[of _ "files ! j"]) auto
qed

text \<open>
  C2: the validator rejects a file exactly when it is larger than 10 MiB, or its declared
  type is not one of the four allowed MIME types, or its lower-cased name contains a
  blocklisted extension; a rejection carries a non-empty reason, that of the first
  failing check in this order, and an accepted file carries none.  Every entry that a
  batch intake hands to the completion callback stems from a file of the batch that the
  validator accepts, and there are at most as many entries as accepted files.
\<close>

theorem validator_rejects_exactly:
  "(\<not> isValid (validateImageFile f) \<longleftrightarrow>
       10 * 1024 * 1024 < fsize f
       \<or> ftype f \<notin> {''image/jpeg'', ''image/jpg'', ''image/png'', ''image/webp''}
       \<or> (\<exists>ext \<in> {''.exe'', ''.bat'', ''.cmd'', ''.scr'', ''.com'', ''.pif''}.
             str_includes (toLowerCase (name f)) ext))
   \<and> (\<not> isValid (validateImageFile f) \<longrightarrow>
         (\<exists>r. error (validateImageFile f) = Some r \<and> r \<noteq> []))
   \<and> (isValid (validateImageFile f) \<longrightarrow> error (validateImageFile f) = None)
   \<and> (10 * 1024 * 1024 < fsize f \<longrightarrow>
         error (validateImageFile f)
           = Some (''File '' @ quoted (name f) @ '' is too large. Maximum size is 10MB.''))
   \<and> (fsize f \<le> 10 * 1024 * 1024
        \<and> ftype f \<notin> {''image/jpeg'', ''image/jpg'', ''image/png'', ''image/webp''} \<longrightarrow>
         error (validateImageFile f)
           = Some (''File '' @ quoted (name f)
                   @ '' has unsupported format. Only JPG, PNG, and WebP are allowed.''))
   \<and> (fsize f \<le> 10 * 1024 * 1024
        \<and> ftype f \<in> {''image/jpeg'', ''image/jpg'', ''image/png'', ''image/webp''}
        \<and> (\<exists>ext \<in> {''.exe'', ''.bat'', ''.cmd'', ''.scr'', ''.com'', ''.pif''}.
              str_includes (toLowerCase (name f)) ext) \<longrightarrow>
         error (validateImageFile f)
           = Some (''File '' @ quoted (name f)
                   @ '' appears to be suspicious and cannot be uploaded.''))
   \<and> (\<forall>m \<in> set (completed (processAndUploadFiles cloud cb env files u p existing)).
         \<exists>g \<in> set files. isValid (validateImageFile g) \<and> name (file m) = name g
           \<and> ftype (file m) = ftype g)
   \<and> length (completed (processAndUploadFiles cloud cb env files u p existing))
        \<le> length (filter (\<lambda>g. isValid (validateImageFile g)) files)"
proof -
  have a: "(\<not> isValid (validateImageFile f) \<longleftrightarrow>
       10 * 1024 * 1024 < fsize f
       \<or> ftype f \<notin> {''image/jpeg'', ''image/jpg'', ''image/png'', ''image/webp''}
       \<or> (\<exists>ext \<in> {''.exe'', ''.bat'', ''.cmd'', ''.scr'', ''.com'', ''.pif''}.
             str_includes (toLowerCase (name f)) ext))"
    by (simp add: validate_cases)
  have b: "\<not> isValid (validateImageFile f) \<longrightarrow>
         (\<exists>r. error (validateImageFile f) = Some r \<and> r \<noteq> [])"
    by (simp add: validate_cases)
  have c: "isValid (validateImageFile f) \<longrightarrow> error (validateImageFile f) = None"
    by (simp add: validate_cases)
  have d: "10 * 1024 * 1024 < fsize f \<longrightarrow>
         error (validateImageFile f)
           = Some (''File '' @ quoted (name f) @ '' is too large. Maximum size is 10MB.'')"
    by (simp add: validate_cases)
  have e: "fsize f \<le> 10 * 1024 * 1024
        \<and> ftype f \<notin> {''image/jpeg'', ''image/jpg'', ''image/png'', ''image/webp''} \<longrightarrow>
         error (validateImageFile f)
           = Some (''File '' @ quoted (name f)
                   @ '' has unsupported format. Only JPG, PNG, and WebP are allowed.'')"
    by (simp add: validate_cases)
  have g: "fsize f \<le> 10 * 1024 * 1024
        \<and> ftype f \<in> {''image/jpeg'', ''image/jpg'', ''image/png'', ''image/webp''}
        \<and> (\<exists>ext \<in> {''.exe'', ''.bat'', ''.cmd'', ''.scr'', ''.com'', ''.pif''}.
              str_includes (toLowerCase (name f)) ext) \<longrightarrow>
         error (validateImageFile f)
           = Some (''File '' @ quoted (name f)
                   @ '' appears to be suspicious and cannot be uploaded.'')"
    by (simp add: validate_cases)
  have h: "\<forall>m \<in> set (completed (processAndUploadFiles cloud cb env files u p existing)).
         \<exists>g \<in> set files. isValid (validateImageFile g) \<and> name (file m) = name g
           \<and> ftype (file m) = ftype g"
    using completed_from_valid by blast
  show ?thesis
    by (intro conjI) (rule a b c d e g h completed_length)+
qed

subsection \<open>Evaluation at the sample inputs\<close>

lemma fdiv_800_600: "fdiv (Num 800) (Num 600) = Num (6004799503160661 / 4503599627370496)"
  by code_simp

lemma lower_samples:
  "toLowerCase ''lab-results.png'' = ''lab-results.png''"
  "toLowerCase ''setup.EXE.png'' = ''setup.exe.png''"
  "toLowerCase ''anim.gif'' = ''anim.gif''"
  "toLowerCase ''big.png'' = ''big.png''"
  by code_simp+

lemma toString_samples:
  "nat_toString 1700 = ''1700''" "nat_toString 0 = ''0''" "nat_toString 1 = ''1''"
  "nat_toString (Suc 0) = ''1''"
  by code_simp+

lemma sample_valid: "isValid (validateImageFile sampleFile)"
  by (simp add: validate_cases sampleFile_def lower_samples)

lemma sample_processImage:
  "processImage \<lparr>decode = Some (800, 600), encode = Some 1024\<rparr> sampleFile
     = Inr \<lparr>file = \<lparr>name = ''lab-results.png'', ftype = ''image/png'', fsize = 1024\<rparr>,
            width = Num 800, height = Num 600,
            aspectRatio = Num (6004799503160661 / 4503599627370496)\<rparr>"
  by (simp add: processImage_def toBlob_def MAX_WIDTH_def sampleFile_def fdiv_800_600
      del: fdiv.simps)

theorem validator_rejects_exactly_witness:
  "10 * 1024 * 1024 < fsize bigFile
   \<and> \<not> isValid (validateImageFile bigFile)
   \<and> error (validateImageFile bigFile)
       = Some (''File '' @ quoted ''big.png'' @ '' is too large. Maximum size is 10MB.'')
   \<and> fsize gifFile \<le> 10 * 1024 * 1024
   \<and> ftype gifFile \<notin> {''image/jpeg'', ''image/jpg'', ''image/png'', ''image/webp''}
   \<and> \<not> isValid (validateImageFile gifFile)
   \<and> error (validateImageFile gifFile)
       = Some (''File '' @ quoted ''anim.gif''
               @ '' has unsupported format. Only JPG, PNG, and WebP are allowed.'')
   \<and> str_includes (toLowerCase (name exeFile)) ''.exe''
   \<and> \<not> isValid (validateImageFile exeFile)
   \<and> error (validateImageFile exeFile)
       = Some (''File '' @ quoted ''setup.EXE.png''
               @ '' appears to be suspicious and cannot be uploaded.'')
   \<and> isValid (validateImageFile sampleFile)
   \<and> error (validateImageFile sampleFile) = None
   \<and> length (completed (processAndUploadFiles False allCallbacks offlineEnv
                 [gifFile, sampleFile, exeFile] ''u'' ''p'' [])) \<le> 1"
  using validator_rejects_exactly [of bigFile False allCallbacks offlineEnv "[]" "''u''" "''p''" "[]"]
    validator_rejects_exactly [of gifFile False allCallbacks offlineEnv "[]" "''u''" "''p''" "[]"]
    validator_rejects_exactly [of exeFile False allCallbacks offlineEnv "[]" "''u''" "''p''" "[]"]
    validator_rejects_exactly [of sampleFile False allCallbacks offlineEnv
      "[gifFile, sampleFile, exeFile]" "''u''" "''p''" "[]"]
  by (simp add: bigFile_def gifFile_def exeFile_def sampleFile_def lower_samples validate_cases)

lemma intakeOne_events_stored:
  "isValid (validateImageFile f) \<Longrightarrow> processImage (img e) f = Inr pimg \<Longrightarrow>
   set (snd (storeFile cloud cb u p e (fileIdAt e i) (name f) (newMediaFile (fileIdAt e i) pimg)))
     \<subseteq> set (snd (snd (intakeOne cloud cb u p e i f)))"
  by (auto simp: intakeOne_def intakeFile_def Let_def moderateImage_def case_prod_beta)

lemma intakeLoop_events:
  assumes "j < length fs"
  shows "set (snd (snd (intakeOne cloud cb u p (env (k + j)) (k + j) (fs ! j))))
           \<subseteq> set (snd (snd (intakeLoop cloud cb u p env k fs ([], [], []))))"
  using assms
proof (induction fs arbitrary: k j)
  case Nil
  then show ?case by simp
next
  case (Cons f fs)
  show ?case
  proof (cases j)
    case 0
    then show ?thesis
      by (auto simp: intakeLoop_Cons case_prod_beta simp del: intakeLoop.simps)
  next
    case (Suc j')
    then have "set (snd (snd (intakeOne cloud cb u p (env (Suc k + j')) (Suc k + j') (fs ! j'))))
           \<subseteq> set (snd (snd (intakeLoop cloud cb u p env (Suc k) fs ([], [], []))))"
      using Cons.prems by (intro Cons.IH) auto
    then show ?thesis using Suc
      by (auto simp: intakeLoop_Cons case_prod_beta simp del: intakeLoop.simps)
  qed
qed

lemma run_events:
  assumes "length existing + length files \<le> 12"
  shows "set (snd (snd (intakeLoop cloud cb u p env 0 files ([], [], []))))
           \<subseteq> set (processAndUploadFiles cloud cb env files u p existing)"
  using assms by (auto simp: processAndUploadFiles_def maxFiles_def case_prod_beta)

lemma completed_fields:
  assumes "m \<in> set (completed (processAndUploadFiles cloud cb env files u p existing))"
    and "\<And>j url. result (upload (env j)) = Uploaded url \<Longrightarrow> url \<noteq> []"
  shows "src m \<noteq> [] \<and> isUploading m = Some False \<and> uploadProgress m = Some 100"
proof -
  from completed_entry[OF assms(1)] obtain j pimg where
    m: "m = fst (storeFile cloud cb u p (env j) (fileIdAt (env j) j)
                         (name (files ! j)) (newMediaFile (fileIdAt (env j) j) pimg))"
    by blast
  show ?thesis
    using storeFile_fields[of cloud cb u p "env j" "fileIdAt (env j) j" "name (files ! j)"
        "newMediaFile (fileIdAt (env j) j) pimg"] assms(2)[of j "src m"]
      createObjectURL_nonempty[of "blob_token (env j)"]
    unfolding m[symmetric] by auto
qed

lemma errors_indep:
  assumes "\<And>j. img (env' j) = img (env j)"
  shows "errorMessages (processAndUploadFiles cloud cb env files u p existing)
       = errorMessages (processAndUploadFiles cloud' cb env' files u p existing)"
proof (cases "length existing + length files \<le> 12")
  case True
  then show ?thesis
    using intakeLoop_errors_indep[of env' env cloud cb u p 0 files cloud' cb u p, OF assms]
    by (simp add: run_within_cap)
next
  case False
  then show ?thesis by (simp add: run_over_cap)
qed

text \<open>
  C7: when the remote upload of a validated, approved file fails, or no remote client is
  configured, the entry completes intake with a local object URL as \<open>src\<close>, not
  uploading, progress 100, and is part of the batch handed to the completion callback;
  the failure is logged (\<open>console.warn\<close>), and the messages delivered through the error
  callback are the same whatever the remote store does, so none of them reports the
  upload.  Every entry of a completed batch has a non-empty \<open>src\<close>, given that the
  remote store answers a successful upload with a non-empty public URL.
\<close>

theorem upload_failure_falls_back:
  assumes cap: "length existing + length files \<le> 12"
    and i: "i < length files"
    and valid: "isValid (validateImageFile (files ! i))"
    and proc: "processImage (img (env i)) (files ! i) = Inr pimg"
    and fail: "\<not> cloud \<or> result (upload (env i)) = UploadError msg"
  shows "(onComplete cb \<longrightarrow>
            (newMediaFile (fileIdAt (env i) i) pimg)
              \<lparr>src := createObjectURL (blob_token (env i)), isUploading := Some False,
               uploadProgress := Some 100\<rparr>
            \<in> set (completed (processAndUploadFiles cloud cb env files u p existing)))
       \<and> (cloud \<longrightarrow>
            ConsoleWarn (''Cloud upload failed for '' @ name (files ! i)
                         @ '', falling back to local storage:'')
            \<in> set (processAndUploadFiles cloud cb env files u p existing))
       \<and> (\<forall>cloud' env'. (\<forall>j. img (env' j) = img (env j)) \<longrightarrow>
            errorMessages (processAndUploadFiles cloud cb env files u p existing)
              = errorMessages (processAndUploadFiles cloud' cb env' files u p existing))
       \<and> ((\<forall>j url. result (upload (env j)) = Uploaded url \<longrightarrow> url \<noteq> []) \<longrightarrow>
            (\<forall>m \<in> set (completed (processAndUploadFiles cloud cb env files u p existing)).
               src m \<noteq> [] \<and> isUploading m = Some False \<and> uploadProgress m = Some 100))"
proof -
  let ?run = "processAndUploadFiles cloud cb env files u p existing"
  let ?fid = "fileIdAt (env i) i"
  let ?stored = "storeFile cloud cb u p (env i) ?fid (name (files ! i)) (newMediaFile ?fid pimg)"
  have mem: "fst ?stored \<in> set (fst (intakeLoop cloud cb u p env 0 files ([], [], [])))"
    using intakeLoop_member[of i files env 0 pimg cloud cb u p] i valid proc by simp
  have loc: "fst ?stored = (newMediaFile ?fid pimg)
              \<lparr>src := createObjectURL (blob_token (env i)), isUploading := Some False,
               uploadProgress := Some 100\<rparr>"
    using fail by (rule storeFile_local)
  have a: "onComplete cb \<longrightarrow>
            (newMediaFile ?fid pimg)
              \<lparr>src := createObjectURL (blob_token (env i)), isUploading := Some False,
               uploadProgress := Some 100\<rparr> \<in> set (completed ?run)"
    using mem loc cap by (simp add: run_within_cap)
  have b: "cloud \<longrightarrow>
            ConsoleWarn (''Cloud upload failed for '' @ name (files ! i)
                         @ '', falling back to local storage:'') \<in> set ?run"
  proof
    assume c: cloud
    then have err: "result (upload (env i)) = UploadError msg" using fail by simp
    have "ConsoleWarn (''Cloud upload failed for '' @ name (files ! i)
                         @ '', falling back to local storage:'') \<in> set (snd ?stored)"
      using c err by (rule storeFile_warns)
    then have "ConsoleWarn (''Cloud upload failed for '' @ name (files ! i)
                         @ '', falling back to local storage:'')
                 \<in> set (snd (snd (intakeOne cloud cb u p (env i) i (files ! i))))"
      using intakeOne_events_stored[OF valid proc, of cloud cb u p i] by blast
    then have "ConsoleWarn (''Cloud upload failed for '' @ name (files ! i)
                         @ '', falling back to local storage:'')
                 \<in> set (snd (snd (intakeLoop cloud cb u p env 0 files ([], [], []))))"
      using intakeLoop_events[OF i, of cloud cb u p env 0] by auto
    then show "ConsoleWarn (''Cloud upload failed for '' @ name (files ! i)
                         @ '', falling back to local storage:'') \<in> set ?run"
      using run_events[OF cap, of cloud cb u p env] by blast
  qed
  have c: "\<forall>cloud' env'. (\<forall>j. img (env' j) = img (env j)) \<longrightarrow>
            errorMessages ?run
              = errorMessages (processAndUploadFiles cloud' cb env' files u p existing)"
    using errors_indep by blast
  have d: "(\<forall>j url. result (upload (env j)) = Uploaded url \<longrightarrow> url \<noteq> []) \<longrightarrow>
            (\<forall>m \<in> set (completed ?run).
               src m \<noteq> [] \<and> isUploading m = Some False \<and> uploadProgress m = Some 100)"
    using completed_fields by blast
  show ?thesis
    by (intro conjI) (rule a b c d)+
qed

lemma mixed_run_completed:
  "completed (processAndUploadFiles True allCallbacks mixedEnv [sampleFile, sampleFile] ''u'' ''p'' [])
     = [\<lparr>file = \<lparr>name = ''lab-results.png'', ftype = ''image/png'', fsize = 1024\<rparr>,
          width = Num 800, height = Num 600,
          aspectRatio = Num (6004799503160661 / 4503599627370496),
          id' = ''17000'', src = ''blob:tok'', caption = None, alt = None,
          uploadProgress = Some 100, isUploading = Some False, cloudUrl = None\<rparr>,
        \<lparr>file = \<lparr>name = ''lab-results.png'', ftype = ''image/png'', fsize = 1024\<rparr>,
          width = Num 800, height = Num 600,
          aspectRatio = Num (6004799503160661 / 4503599627370496),
          id' = ''17001'', src = ''https://store.example/p/1.png'', caption = None, alt = None,
          uploadProgress = Some 100, isUploading = Some False,
          cloudUrl = Some ''https://store.example/p/1.png''\<rparr>]"
  by (simp add: run_within_cap allCallbacks_def intakeFile_def Let_def sample_valid mixedEnv_def
      sample_processImage moderateImage_def storeFile_def uploadFileToCloud_def newMediaFile_def
      fileIdAt_def toString_samples createObjectURL_def)

lemma mixed_run_errors:
  "errorMessages (processAndUploadFiles True allCallbacks mixedEnv [sampleFile, sampleFile] ''u'' ''p'' []) = []"
  by (simp add: run_within_cap allCallbacks_def intakeFile_def Let_def sample_valid mixedEnv_def
      sample_processImage moderateImage_def storeFile_def uploadFileToCloud_def newMediaFile_def
      fileIdAt_def toString_samples createObjectURL_def)


theorem upload_failure_falls_back_witness:
  "length ([] :: MediaFile list) + length [sampleFile, sampleFile] \<le> 12
   \<and> 0 < length [sampleFile, sampleFile]
   \<and> isValid (validateImageFile ([sampleFile, sampleFile] ! 0))
   \<and> processImage (img (mixedEnv 0)) ([sampleFile, sampleFile] ! 0)
       = Inr \<lparr>file = \<lparr>name = ''lab-results.png'', ftype = ''image/png'', fsize = 1024\<rparr>,
              width = Num 800, height = Num 600,
              aspectRatio = Num (6004799503160661 / 4503599627370496)\<rparr>
   \<and> result (upload (mixedEnv 0)) = UploadError ''network''
   \<and> onComplete allCallbacks
   \<and> completed (processAndUploadFiles True allCallbacks mixedEnv [sampleFile, sampleFile]
                   ''u'' ''p'' [])
       = [\<lparr>file = \<lparr>name = ''lab-results.png'', ftype = ''image/png'', fsize = 1024\<rparr>,
            width = Num 800, height = Num 600,
            aspectRatio = Num (6004799503160661 / 4503599627370496),
            id' = ''17000'', src = ''blob:tok'', caption = None, alt = None,
            uploadProgress = Some 100, isUploading = Some False, cloudUrl = None\<rparr>,
          \<lparr>file = \<lparr>name = ''lab-results.png'', ftype = ''image/png'', fsize = 1024\<rparr>,
            width = Num 800, height = Num 600,
            aspectRatio = Num (6004799503160661 / 4503599627370496),
            id' = ''17001'', src = ''https://store.example/p/1.png'', caption = None, alt = None,
            uploadProgress = Some 100, isUploading = Some False,
            cloudUrl = Some ''https://store.example/p/1.png''\<rparr>]
   \<and> ConsoleWarn ''Cloud upload failed for lab-results.png, falling back to local storage:''
       \<in> set (processAndUploadFiles True allCallbacks mixedEnv [sampleFile, sampleFile]
                 ''u'' ''p'' [])
   \<and> errorMessages (processAndUploadFiles True allCallbacks mixedEnv [sampleFile, sampleFile]
                       ''u'' ''p'' [])
       = errorMessages (processAndUploadFiles False allCallbacks offlineEnv
                          [sampleFile, sampleFile] ''u'' ''p'' [])
   \<and> errorMessages (processAndUploadFiles True allCallbacks mixedEnv [sampleFile, sampleFile]
                       ''u'' ''p'' []) = []"
proof -
  have hyps: "length ([] :: MediaFile list) + length [sampleFile, sampleFile] \<le> 12"
    "0 < length [sampleFile, sampleFile]"
    "isValid (validateImageFile ([sampleFile, sampleFile] ! 0))"
    "processImage (img (mixedEnv 0)) ([sampleFile, sampleFile] ! 0)
       = Inr \<lparr>file = \<lparr>name = ''lab-results.png'', ftype = ''image/png'', fsize = 1024\<rparr>,
              width = Num 800, height = Num 600,
              aspectRatio = Num (6004799503160661 / 4503599627370496)\<rparr>"
    "\<not> True \<or> result (upload (mixedEnv 0)) = UploadError ''network''"
    by (simp_all add: sample_valid sample_processImage mixedEnv_def)
  have same: "\<forall>j. img (offlineEnv j) = img (mixedEnv j)"
    by (simp add: offlineEnv_def mixedEnv_def)
  note T = upload_failure_falls_back [where existing = "[]" and files = "[sampleFile, sampleFile]"
        and i = 0 and env = mixedEnv and cloud = True and msg = "''network''"
        and cb = allCallbacks and u = "''u''" and p = "''p''", OF hyps]
  have warn: "ConsoleWarn ''Cloud upload failed for lab-results.png, falling back to local storage:''
       \<in> set (processAndUploadFiles True allCallbacks mixedEnv [sampleFile, sampleFile]
                 ''u'' ''p'' [])"
    using T [THEN conjunct2, THEN conjunct1] by (simp add: sampleFile_def)
  have indep: "errorMessages (processAndUploadFiles True allCallbacks mixedEnv
                   [sampleFile, sampleFile] ''u'' ''p'' [])
       = errorMessages (processAndUploadFiles False allCallbacks offlineEnv
                          [sampleFile, sampleFile] ''u'' ''p'' [])"
    using T [THEN conjunct2, THEN conjunct2, THEN conjunct1, rule_format, of offlineEnv False] same
    by blast
  have cb: "onComplete allCallbacks"
    by (simp add: allCallbacks_def)
  have upl: "result (upload (mixedEnv 0)) = UploadError ''network''"
    by (simp add: mixedEnv_def)
  show ?thesis
    by (intro conjI) (rule hyps upl cb mixed_run_completed warn indep mixed_run_errors)+
qed

section \<open>Manual reordering\<close>

lemma findIndex_Some:
  "findIndex P xs = Some i \<Longrightarrow> i < length xs \<and> P (xs ! i) \<and> (\<forall>j < i. \<not> P (xs ! j))"
proof (induction xs arbitrary: i)
  case Nil
  then show ?case by simp
next
  case (Cons x xs)
  show ?case
  proof (cases "P x")
    case True
    then show ?thesis using Cons.prems by simp
  next
    case False
    then obtain i' where i': "findIndex P xs = Some i'" and i: "i = Suc i'"
      using Cons.prems by auto
    from Cons.IH[OF i'] show ?thesis
      using False i by (auto simp: nth_Cons split: nat.splits)
  qed
qed

lemma findIndex_present:
  "(\<exists>x \<in> set xs. P x) \<Longrightarrow> \<exists>i. findIndex P xs = Some i"
  by (induction xs) auto

lemma mset_spliceOut:
  "i < length xs \<Longrightarrow> add_mset (xs ! i) (mset (spliceOut i xs)) = mset xs"
proof -
  assume i: "i < length xs"
  have "xs = take i xs @ xs ! i # drop (Suc i) xs"
    using i by (simp add: id_take_nth_drop)
  then have "mset xs = mset (take i xs @ xs ! i # drop (Suc i) xs)"
    by simp
  then show ?thesis
    by (simp add: spliceOut_def)
qed

lemma length_spliceOut: "i < length xs \<Longrightarrow> length (spliceOut i xs) = length xs - 1"
  by (auto simp: spliceOut_def)

lemma mset_spliceIn: "mset (spliceIn i x xs) = add_mset x (mset xs)"
proof -
  have "mset (take i xs) + mset (drop i xs) = mset xs"
    by (metis append_take_drop_id mset_append)
  then show ?thesis
    by (simp add: spliceIn_def)
qed

lemma length_spliceIn: "length (spliceIn i x xs) = Suc (length xs)"
  by (simp add: spliceIn_def)

lemma nth_spliceIn: "i \<le> length xs \<Longrightarrow> spliceIn i x xs ! i = x"
  by (simp add: spliceIn_def nth_append)

text \<open>
  C5: a drop of the dragged entry (the first entry with the identifier held in
  \<open>draggedItem\<close>) onto an entry with another identifier, both in the list, hands to
  \<open>onReorder\<close> the list with the dragged entry taken out and put back at the index the
  target had: the same entries with the same multiplicities, the same length, and the
  dragged entry at the target's former index.
\<close>

theorem drop_is_permutation:
  assumes "d \<noteq> []" and "d \<noteq> t"
    and "\<exists>f \<in> set files. id' f = d" and "\<exists>f \<in> set files. id' f = t"
  shows "\<exists>di ti new.
           findIndex (\<lambda>f. id' f = d) files = Some di
         \<and> findIndex (\<lambda>f. id' f = t) files = Some ti
         \<and> handleDrop True (Some d) files t = Some new
         \<and> new = spliceIn ti (files ! di) (spliceOut di files)
         \<and> mset new = mset files
         \<and> length new = length files
         \<and> set new = set files
         \<and> (distinct files \<longrightarrow> distinct new)
         \<and> new ! ti = files ! di
         \<and> id' (new ! ti) = d"
proof -
  obtain di where di: "findIndex (\<lambda>f. id' f = d) files = Some di"
    using findIndex_present[of files "\<lambda>f. id' f = d"] assms(3) by blast
  obtain ti where ti: "findIndex (\<lambda>f. id' f = t) files = Some ti"
    using findIndex_present[of files "\<lambda>f. id' f = t"] assms(4) by blast
  define new where "new = spliceIn ti (files ! di) (spliceOut di files)"
  have dlt: "di < length files" and did: "id' (files ! di) = d"
    using findIndex_Some[OF di] by auto
  have tlt: "ti < length files"
    using findIndex_Some[OF ti] by auto
  have run: "handleDrop True (Some d) files t = Some new"
    using assms(1,2) di ti by (simp add: handleDrop_def new_def)
  have ms: "mset new = mset files"
    using mset_spliceOut[OF dlt] by (simp add: new_def mset_spliceIn)
  have len: "length new = length files"
    using dlt by (simp add: new_def length_spliceIn length_spliceOut)
  have st: "set new = set files"
    using ms by (rule mset_eq_setD)
  have dist: "distinct files \<longrightarrow> distinct new"
    using ms by (metis distinct_count_atmost_1 set_mset_mset count_mset)
  have pos: "new ! ti = files ! di"
    using tlt dlt by (simp add: new_def nth_spliceIn length_spliceOut)
  show ?thesis
    using di ti run new_def ms len st dist pos did by auto
qed


lemma sample_ids: "id' entryA = ''a''" "id' entryB = ''b''" "id' entryC = ''c''"
  by (simp_all add: entryA_def entryB_def entryC_def)

theorem drop_is_permutation_witness:
  "''a'' \<noteq> [] \<and> ''a'' \<noteq> ''c''
   \<and> (\<exists>f \<in> set [entryA, entryB, entryC]. id' f = ''a'')
   \<and> (\<exists>f \<in> set [entryA, entryB, entryC]. id' f = ''c'')
   \<and> handleDrop True (Some ''a'') [entryA, entryB, entryC] ''c'' = Some [entryB, entryC, entryA]
   \<and> handleDrop True (Some ''c'') [entryA, entryB, entryC] ''a'' = Some [entryC, entryA, entryB]
   \<and> mset [entryB, entryC, entryA] = mset [entryA, entryB, entryC]"
proof -
  have hyps: "''a'' \<noteq> []" "''a'' \<noteq> ''c''"
    "\<exists>f \<in> set [entryA, entryB, entryC]. id' f = ''a''"
    "\<exists>f \<in> set [entryA, entryB, entryC]. id' f = ''c''"
    by (simp_all add: sample_ids)
  have ev1: "handleDrop True (Some ''a'') [entryA, entryB, entryC] ''c''
               = Some [entryB, entryC, entryA]"
    by (simp add: handleDrop_def spliceIn_def spliceOut_def sample_ids)
  have ev2: "handleDrop True (Some ''c'') [entryA, entryB, entryC] ''a''
               = Some [entryC, entryA, entryB]"
    by (simp add: handleDrop_def spliceIn_def spliceOut_def sample_ids)
  from drop_is_permutation [OF hyps] ev1
  have ms: "mset [entryB, entryC, entryA] = mset [entryA, entryB, entryC]"
    by auto
  show ?thesis
    by (intro conjI) (rule hyps ev1 ev2 ms)+
qed

section \<open>The document renderer\<close>

lemma captionsOf_append: "captionsOf (xs @ ys) = captionsOf xs @ captionsOf ys"
  by (induction xs rule: captionsOf.induct) auto

lemma headingsOf_append: "headingsOf (xs @ ys) = headingsOf xs @ headingsOf ys"
  by (induction xs rule: headingsOf.induct) auto

lemma referencesOf_append: "referencesOf (xs @ ys) = referencesOf xs @ referencesOf ys"
  by (induction xs rule: referencesOf.induct) auto

lemma pdfSections_plain:
  "captionsOf (pdfSections env k ss) = [] \<and> headingsOf (pdfSections env k ss) = []
   \<and> referencesOf (pdfSections env k ss) = []"
  by (induction env k ss rule: pdfSections.induct)
     (auto simp: captionsOf_append headingsOf_append referencesOf_append)

lemma pdfFigure_captions:
  "captionsOf (pdfFigure env i m)
     = (if readFile env i \<noteq> None \<and> embeds env i then [figureCaption i m] else [])
   \<and> headingsOf (pdfFigure env i m) = [] \<and> referencesOf (pdfFigure env i m) = []"
  by (auto simp: pdfFigure_def captionsOf_append headingsOf_append referencesOf_append
      split: option.splits)

lemma pdfFigureLoop_captions:
  "captionsOf (pdfFigureLoop env k ms)
     = map (\<lambda>(i, m). figureCaption i m)
         (filter (\<lambda>(i, m). readFile env i \<noteq> None \<and> embeds env i) (enumerate k ms))
   \<and> headingsOf (pdfFigureLoop env k ms) = [] \<and> referencesOf (pdfFigureLoop env k ms) = []"
  by (induction env k ms rule: pdfFigureLoop.induct)
     (simp_all add: captionsOf_append headingsOf_append referencesOf_append pdfFigure_captions)

lemma references_map:
  "referencesOf (map (\<lambda>(index, citation). WrappedText 10 ''normal'' (g index citation)) xs)
     = map (\<lambda>(index, citation). g index citation) xs
   \<and> captionsOf (map (\<lambda>(index, citation). WrappedText 10 ''normal'' (g index citation)) xs) = []
   \<and> headingsOf (map (\<lambda>(index, citation). WrappedText 10 ''normal'' (g index citation)) xs) = []"
  by (induction xs) auto

lemma pdfReferences_plain:
  "referencesOf (pdfReferences cs)
     = map (\<lambda>(j, c). nat_toString (j + 1) @ ''. '' @ c) (enumerate 0 cs)
   \<and> captionsOf (pdfReferences cs) = []
   \<and> headingsOf (pdfReferences cs) = (if cs = [] then [] else [''References''])"
  using references_map[of "\<lambda>j c. nat_toString (j + 1) @ ''. '' @ c" "enumerate 0 cs"]
  by (simp add: pdfReferences_def)

lemma filter_enumerate_all:
  "(\<forall>i < length ms. P (k + i)) \<Longrightarrow> filter (\<lambda>(i, m). P i) (enumerate k ms) = enumerate k ms"
proof (induction ms arbitrary: k)
  case Nil
  then show ?case by simp
next
  case (Cons m ms)
  have "P k" using Cons.prems by force
  moreover have "\<forall>i < length ms. P (Suc k + i)"
    using Cons.prems by force
  ultimately show ?case using Cons.IH[of "Suc k"] by simp
qed


text \<open>
  C6, as stated, fails: the export of one media file whose data cannot be read writes the
  \<open>Figures\<close> heading and no caption.
\<close>

theorem figures_counterexample:
  "length [entryA] = 1
   \<and> captionsOf (exportToPDF unreadablePdfEnv sampleProject [entryA]) = []
   \<and> headingsOf (exportToPDF unreadablePdfEnv sampleProject [entryA]) = [''Figures'', ''References'']"
  by (simp add: exportToPDF_def pdfFigures_def pdfFigure_def pdfReferences_def
      unreadablePdfEnv_def sampleProject_def captionsOf_append headingsOf_append)

text \<open>
  C6, amended: without media files the document has no \<open>Figures\<close> heading and no
  caption.  With media files it has the \<open>Figures\<close> heading, and after it one caption
  \<open>Figure i: caption-or-filename\<close> for every media file that is read and embedded, in
  list order, \<open>i\<close> being the position of the file in the media list counted from 1; so
  exactly N captions, numbered 1 to N, when every file is read and embedded.  The
  citations are written as \<open>j. citation\<close> in list order, under a \<open>References\<close> heading
  that is present exactly when there is a citation.
\<close>

theorem pdf_figures_and_references:
  "captionsOf (exportToPDF env p []) = []
   \<and> headingsOf (exportToPDF env p []) = (if citations p = [] then [] else [''References''])
   \<and> (ms \<noteq> [] \<longrightarrow>
        headingsOf (exportToPDF env p ms)
          = ''Figures'' # (if citations p = [] then [] else [''References''])
        \<and> (\<exists>front rest.
              exportToPDF env p ms = front @ Text 16 ''bold'' ''Figures'' # rest
              \<and> captionsOf front = []
              \<and> captionsOf rest = captionsOf (exportToPDF env p ms)))
   \<and> captionsOf (exportToPDF env p ms)
       = map (\<lambda>(i, m). ''Figure '' @ nat_toString (i + 1) @ '': '' @ captionOrName m)
           (filter (\<lambda>(i, m). readFile env i \<noteq> None \<and> embeds env i) (enumerate 0 ms))
   \<and> ((\<forall>i < length ms. readFile env i \<noteq> None \<and> embeds env i) \<longrightarrow>
        captionsOf (exportToPDF env p ms)
          = map (\<lambda>(i, m). ''Figure '' @ nat_toString (i + 1) @ '': '' @ captionOrName m)
              (enumerate 0 ms)
        \<and> length (captionsOf (exportToPDF env p ms)) = length ms)
   \<and> referencesOf (exportToPDF env p ms)
       = map (\<lambda>(j, c). nat_toString (j + 1) @ ''. '' @ c) (enumerate 0 (citations p))"
proof -
  let ?cap = "\<lambda>(i, m). ''Figure '' @ nat_toString (i + 1) @ '': '' @ captionOrName m"
  have capeq: "(\<lambda>(i, m). figureCaption i m) = ?cap"
    by (simp add: figureCaption_def fun_eq_iff)
  have caps: "captionsOf (exportToPDF env p ms)
       = map ?cap (filter (\<lambda>(i, m). readFile env i \<noteq> None \<and> embeds env i) (enumerate 0 ms))"
    for ms
    using pdfFigureLoop_captions[of env 0 ms]
    by (simp add: exportToPDF_def pdfFigures_def captionsOf_append pdfSections_plain
        pdfReferences_plain capeq)
  have heads: "headingsOf (exportToPDF env p ms)
       = (if ms = [] then [] else [''Figures'']) @ (if citations p = [] then [] else [''References''])"
    for ms
    by (simp add: exportToPDF_def pdfFigures_def headingsOf_append pdfSections_plain
        pdfReferences_plain pdfFigureLoop_captions)
  have a: "captionsOf (exportToPDF env p []) = []"
    using caps[of "[]"] by simp
  have b: "headingsOf (exportToPDF env p []) = (if citations p = [] then [] else [''References''])"
    using heads[of "[]"] by simp
  have c: "ms \<noteq> [] \<longrightarrow>
        headingsOf (exportToPDF env p ms)
          = ''Figures'' # (if citations p = [] then [] else [''References''])
        \<and> (\<exists>front rest.
              exportToPDF env p ms = front @ Text 16 ''bold'' ''Figures'' # rest
              \<and> captionsOf front = []
              \<and> captionsOf rest = captionsOf (exportToPDF env p ms))"
  proof
    assume ne: "ms \<noteq> []"
    let ?front = "[Text 20 ''bold'' (title p), WrappedText 12 ''normal'' (abstract p)]
                    @ pdfSections env 0 (sections p) @ [AddPage]"
    let ?rest = "pdfFigureLoop env 0 ms @ pdfReferences (citations p) @ [Save (pdfFileName (title p))]"
    have split: "exportToPDF env p ms = ?front @ Text 16 ''bold'' ''Figures'' # ?rest"
      using ne by (simp add: exportToPDF_def pdfFigures_def)
    have f: "captionsOf ?front = []"
      by (simp add: captionsOf_append pdfSections_plain)
    have r: "captionsOf ?rest = captionsOf (exportToPDF env p ms)"
      unfolding split by (simp add: captionsOf_append pdfSections_plain)
    have h: "headingsOf (exportToPDF env p ms)
          = ''Figures'' # (if citations p = [] then [] else [''References''])"
      using heads[of ms] ne by simp
    show "headingsOf (exportToPDF env p ms)
          = ''Figures'' # (if citations p = [] then [] else [''References''])
        \<and> (\<exists>front rest.
              exportToPDF env p ms = front @ Text 16 ''bold'' ''Figures'' # rest
              \<and> captionsOf front = []
              \<and> captionsOf rest = captionsOf (exportToPDF env p ms))"
      using h split f r by blast
  qed
  have d: "(\<forall>i < length ms. readFile env i \<noteq> None \<and> embeds env i) \<longrightarrow>
        captionsOf (exportToPDF env p ms) = map ?cap (enumerate 0 ms)
        \<and> length (captionsOf (exportToPDF env p ms)) = length ms"
  proof
    assume ok: "\<forall>i < length ms. readFile env i \<noteq> None \<and> embeds env i"
    have "filter (\<lambda>(i, m). readFile env i \<noteq> None \<and> embeds env i) (enumerate 0 ms) = enumerate 0 ms"
      using filter_enumerate_all[of ms "\<lambda>i. readFile env i \<noteq> None \<and> embeds env i" 0] ok by simp
    then show "captionsOf (exportToPDF env p ms) = map ?cap (enumerate 0 ms)
        \<and> length (captionsOf (exportToPDF env p ms)) = length ms"
      by (simp add: caps)
  qed
  have e: "referencesOf (exportToPDF env p ms)
       = map (\<lambda>(j, c). nat_toString (j + 1) @ ''. '' @ c) (enumerate 0 (citations p))"
    by (simp add: exportToPDF_def pdfFigures_def referencesOf_append pdfSections_plain
        pdfReferences_plain pdfFigureLoop_captions)
  show ?thesis
    by (intro conjI) (rule a b c caps d e)+
qed


lemma toString_small:
  "nat_toString 2 = ''2''" "nat_toString (Suc (Suc 0)) = ''2''" "nat_toString (Suc 1) = ''2''"
  by code_simp+

theorem pdf_figures_and_references_witness:
  "[entryA\<lparr>caption := Some ''Apparatus''\<rparr>, entryB] \<noteq> []
   \<and> readFile goodPdfEnv 0 \<noteq> None \<and> embeds goodPdfEnv 0
   \<and> readFile goodPdfEnv 1 \<noteq> None \<and> embeds goodPdfEnv 1
   \<and> headingsOf (exportToPDF goodPdfEnv sampleProject [entryA\<lparr>caption := Some ''Apparatus''\<rparr>, entryB])
       = [''Figures'', ''References'']
   \<and> captionsOf (exportToPDF goodPdfEnv sampleProject [entryA\<lparr>caption := Some ''Apparatus''\<rparr>, entryB])
       = [''Figure 1: Apparatus'', ''Figure 2: old.png'']
   \<and> referencesOf (exportToPDF goodPdfEnv sampleProject [entryA\<lparr>caption := Some ''Apparatus''\<rparr>, entryB])
       = [''1. Smith, J. (2023).'', ''2. Brown, M. (2023).'']
   \<and> headingsOf (exportToPDF goodPdfEnv sampleProject []) = [''References'']"
proof -
  let ?ms = "[entryA\<lparr>caption := Some ''Apparatus''\<rparr>, entryB]"
  note T = pdf_figures_and_references [of goodPdfEnv sampleProject ?ms]
  have ne: "?ms \<noteq> []" by simp
  have ok: "readFile goodPdfEnv 0 \<noteq> None" "embeds goodPdfEnv 0"
    "readFile goodPdfEnv 1 \<noteq> None" "embeds goodPdfEnv 1"
    by (simp_all add: goodPdfEnv_def)
  have all: "\<forall>i < length ?ms. readFile goodPdfEnv i \<noteq> None \<and> embeds goodPdfEnv i"
    by (simp add: goodPdfEnv_def)
  have cit: "citations sampleProject = [''Smith, J. (2023).'', ''Brown, M. (2023).'']"
    by (simp add: sampleProject_def)
  have h: "headingsOf (exportToPDF goodPdfEnv sampleProject ?ms) = [''Figures'', ''References'']"
    using T [THEN conjunct2, THEN conjunct2, THEN conjunct1] ne by (simp add: cit)
  have c: "captionsOf (exportToPDF goodPdfEnv sampleProject ?ms)
            = [''Figure 1: Apparatus'', ''Figure 2: old.png'']"
    using T [THEN conjunct2, THEN conjunct2, THEN conjunct2, THEN conjunct2, THEN conjunct1] all
    by (simp add: captionOrName_def truthy_def entryA_def entryB_def sampleEntry_def
        toString_samples toString_small)
  have r: "referencesOf (exportToPDF goodPdfEnv sampleProject ?ms)
            = [''1. Smith, J. (2023).'', ''2. Brown, M. (2023).'']"
    using T [THEN conjunct2, THEN conjunct2, THEN conjunct2, THEN conjunct2, THEN conjunct2]
    by (simp add: cit toString_samples toString_small)
  have z: "headingsOf (exportToPDF goodPdfEnv sampleProject []) = [''References'']"
    using T [THEN conjunct2, THEN conjunct1] by (simp add: cit)
  show ?thesis
    by (intro conjI) (rule ne ok h c r z)+
qed

section \<open>Releasing local references\<close>

lemma sample_local:
  "cleanupObjectUrls [entryA, entryB] = [''blob:a'', ''blob:b'']"
  "cleanupObjectUrls [entryA] = [''blob:a'']"
  by (simp_all add: cleanupObjectUrls_def truthy_def entryA_def entryB_def sampleEntry_def)

text \<open>
  C8 says that a local-only entry has its object URL revoked exactly once, when it is
  removed.  In the component, a list of two local-only entries from which first the
  second and then the first entry is removed sees three revocations: removing the second
  entry revokes the URLs of both (the first is still shown), and removing the first
  revokes its URL again.
\<close>

theorem removal_revokes_twice:
  "revoked (removeFromGallery ''b'' \<lparr>mediaFiles = [entryA, entryB], revoked = []\<rparr>)
     = [''blob:a'', ''blob:b'']
   \<and> mediaFiles (removeFromGallery ''b'' \<lparr>mediaFiles = [entryA, entryB], revoked = []\<rparr>)
     = [entryA]
   \<and> revoked (removeFromGallery ''a''
               (removeFromGallery ''b'' \<lparr>mediaFiles = [entryA, entryB], revoked = []\<rparr>))
     = [''blob:a'', ''blob:b'', ''blob:a'']
   \<and> count_list (revoked (removeFromGallery ''a''
               (removeFromGallery ''b'' \<lparr>mediaFiles = [entryA, entryB], revoked = []\<rparr>)))
         (src entryA) = 2"
  by (simp add: removeFromGallery_def removeFile_def setMediaFiles_def effectCleanup_def
      sample_local sample_ids) (simp add: entryA_def)

section \<open>The image normalizer\<close>

subsection \<open>Rounding to a double\<close>

lemma bitlen_powi:
  assumes "0 < n"
  shows "(2::rat) powi (bitlen n - 1) \<le> of_int n" and "of_int n < (2::rat) powi (bitlen n)"
proof -
  have b1: "1 \<le> bitlen n" using assms by (auto simp: bitlen_alt_def)
  have lo: "(2::int) ^ nat (bitlen n - 1) \<le> n" and hi: "n < 2 ^ nat (bitlen n)"
    using bitlen_bounds[OF assms] by auto
  have "(of_int ((2::int) ^ nat (bitlen n - 1)) :: rat) \<le> of_int n"
    using lo by (simp only: of_int_le_iff)
  then show "(2::rat) powi (bitlen n - 1) \<le> of_int n"
    using b1 by (simp add: power_int_nonneg_exp)
  have "(of_int n :: rat) < of_int ((2::int) ^ nat (bitlen n))"
    using hi by (simp only: of_int_less_iff)
  then show "of_int n < (2::rat) powi (bitlen n)"
    using b1 by (simp add: power_int_nonneg_exp)
qed

lemma ilog2_bounds:
  assumes "0 < q"
  shows "2 powi (ilog2 q) \<le> q \<and> q < 2 powi (ilog2 q + 1)"
proof -
  obtain n d where nd: "quotient_of q = (n, d)" by (cases "quotient_of q") auto
  have dpos: "0 < d" using nd by (rule quotient_of_denom_pos)
  have q: "q = of_int n / of_int d" using nd by (rule quotient_of_div)
  have npos: "0 < n"
    using assms dpos unfolding q by (simp add: zero_less_divide_iff)
  define k where "k = bitlen n - bitlen d"
  have dposr: "(0::rat) < of_int d" using dpos by simp
  have nlo: "(2::rat) powi (bitlen n - 1) \<le> of_int n" and nhi: "of_int n < (2::rat) powi (bitlen n)"
    using bitlen_powi[OF npos] by auto
  have dlo: "(2::rat) powi (bitlen d - 1) \<le> of_int d" and dhi: "of_int d < (2::rat) powi (bitlen d)"
    using bitlen_powi[OF dpos] by auto
  have p: "\<And>j. (0::rat) < 2 powi j" by (simp add: zero_less_power_int)
  have up: "q < 2 powi (k + 1)"
  proof -
    have "q < 2 powi (bitlen n) / of_int d"
      unfolding q using nhi dposr by (simp add: divide_strict_right_mono)
    also have "\<dots> \<le> 2 powi (bitlen n) / 2 powi (bitlen d - 1)"
      using dlo p[of "bitlen n"] p[of "bitlen d - 1"] by (simp add: frac_le)
    also have "\<dots> = 2 powi (bitlen n - (bitlen d - 1))"
      by (simp add: power_int_diff)
    also have "bitlen n - (bitlen d - 1) = k + 1"
      by (simp add: k_def)
    finally show ?thesis .
  qed
  have low: "2 powi (k - 1) \<le> q"
  proof -
    have "k - 1 = (bitlen n - 1) - bitlen d"
      by (simp add: k_def)
    then have "2 powi (k - 1) = 2 powi (bitlen n - 1) / (2::rat) powi (bitlen d)"
      by (simp add: power_int_diff)
    also have "\<dots> \<le> 2 powi (bitlen n - 1) / of_int d"
      using dhi dposr p[of "bitlen n - 1"] by (simp add: frac_le)
    also have "\<dots> \<le> q"
      unfolding q using nlo dposr by (simp add: divide_right_mono)
    finally show ?thesis .
  qed
  have il: "ilog2 q = (if 2 powi k \<le> q then k else k - 1)"
    by (simp add: ilog2_def nd k_def Let_def)
  show ?thesis
  proof (cases "2 powi k \<le> q")
    case True
    then show ?thesis using up il by simp
  next
    case False
    then show ?thesis using low il by simp
  qed
qed

lemma rne_error: "\<bar>of_int (rne x) - x\<bar> \<le> 1 / 2"
proof -
  have f: "of_int \<lfloor>x\<rfloor> \<le> x" "x < of_int \<lfloor>x\<rfloor> + 1"
    by linarith+
  show ?thesis
    using f by (auto simp: rne_def Let_def abs_le_iff)
qed


lemma ilog2_range:
  assumes "2 powi lo \<le> q" and "q < 2 powi hi"
  shows "lo \<le> ilog2 q \<and> ilog2 q < hi"
proof -
  have "(0::rat) < 2 powi lo" by (simp add: zero_less_power_int)
  then have qpos: "0 < q" using assms(1) by linarith
  have b: "2 powi (ilog2 q) \<le> q" "q < 2 powi (ilog2 q + 1)"
    using ilog2_bounds[OF qpos] by auto
  have "lo < ilog2 q + 1"
  proof (rule ccontr)
    assume "\<not> lo < ilog2 q + 1"
    then have "(2::rat) powi (ilog2 q + 1) \<le> 2 powi lo"
      by (intro power_int_increasing) auto
    then show False using b(2) assms(1) by linarith
  qed
  moreover have "ilog2 q < hi"
  proof (rule ccontr)
    assume "\<not> ilog2 q < hi"
    then have "(2::rat) powi hi \<le> 2 powi (ilog2 q)"
      by (intro power_int_increasing) auto
    then show False using b(1) assms(2) by linarith
  qed
  ultimately show ?thesis by simp
qed

lemma round_double_normal:
  assumes "2 powi (- 1022) \<le> q" and "q < 2 powi 1023"
  shows "\<exists>a. round_double q = Num a \<and> \<bar>a - q\<bar> \<le> q / 2 ^ 53"
proof -
  have "(0::rat) < 2 powi (- 1022)" by (simp add: zero_less_power_int)
  then have qpos: "0 < q" using assms(1) by linarith
  define e where "e = ilog2 q"
  have er: "- 1022 \<le> e" "e < 1023"
    using ilog2_range[OF assms] by (auto simp: e_def)
  have lo: "2 powi e \<le> q"
    using ilog2_bounds[OF qpos] by (simp add: e_def)
  define ulp :: rat where "ulp = 2 powi (e - 52)"
  have upos: "0 < ulp" by (simp add: ulp_def zero_less_power_int)
  define m where "m = rne (q / ulp)"
  have mx: "max (ilog2 q) (- 1022) = e" using er by (simp add: e_def)
  have rd: "round_double q = Num (of_int m * ulp)"
    using qpos er mx by (simp add: round_double_def Let_def ulp_def m_def)
  have "\<bar>of_int m - q / ulp\<bar> \<le> 1 / 2"
    unfolding m_def by (rule rne_error)
  then have "\<bar>of_int m - q / ulp\<bar> * ulp \<le> (1 / 2) * ulp"
    using upos by (intro mult_right_mono) auto
  moreover have "\<bar>of_int m - q / ulp\<bar> * ulp = \<bar>of_int m * ulp - q\<bar>"
  proof -
    have "\<bar>of_int m - q / ulp\<bar> * ulp = \<bar>(of_int m - q / ulp) * ulp\<bar>"
      using upos by (simp add: abs_mult)
    also have "(of_int m - q / ulp) * ulp = of_int m * ulp - q"
      using upos by (simp add: algebra_simps)
    finally show ?thesis .
  qed
  ultimately have err: "\<bar>of_int m * ulp - q\<bar> \<le> ulp / 2" by simp
  have "ulp = 2 powi e / 2 ^ 52"
    by (simp add: ulp_def power_int_diff)
  then have "ulp / 2 = 2 powi e / 2 ^ 53" by simp
  also have "\<dots> \<le> q / 2 ^ 53"
    using lo by (simp add: divide_right_mono)
  finally have "ulp / 2 \<le> q / 2 ^ 53" .
  then show ?thesis using rd err by (intro exI[of _ "of_int m * ulp"]) simp
qed

subsection \<open>Two roundings in a row, and rounding to an integer\<close>

lemma two_roundings:
  fixes r a b c u :: rat
  assumes r: "0 < r" and c: "0 < c" and u: "0 < u" "u \<le> 1 / 3"
    and a: "\<bar>a - r\<bar> \<le> r * u"
    and b: "\<bar>b - c / a\<bar> \<le> (c / a) * u"
  shows "0 < a \<and> \<bar>b - c / r\<bar> \<le> (c / r) * (3 * u)"
proof -
  define x where "x = c / r"
  define t where "t = c / a"
  have xpos: "0 < x" using r c by (simp add: x_def)
  have alo: "r * (1 - u) \<le> a" and ahi: "a \<le> r * (1 + u)"
    using a by (auto simp: abs_le_iff algebra_simps)
  have u1: "0 < 1 - u" "0 < 1 + u" using u by auto
  have apos: "0 < a"
  proof -
    have "0 < r * (1 - u)" using r u1 by simp
    then show ?thesis using alo by linarith
  qed
  have tpos: "0 < t" using c apos by (simp add: t_def)
  have ta: "t * a = c" using apos by (simp add: t_def)
  have xr: "x * r = c" using r by (simp add: x_def)
  have t_hi: "t * (1 - u) \<le> x"
  proof -
    have "t * (r * (1 - u)) \<le> t * a"
      using alo tpos by (intro mult_left_mono) auto
    then have "(t * (1 - u)) * r \<le> x * r"
      using ta xr by (simp add: algebra_simps)
    then show ?thesis using r by simp
  qed
  have t_lo: "x \<le> t * (1 + u)"
  proof -
    have "t * a \<le> t * (r * (1 + u))"
      using ahi tpos by (intro mult_left_mono) auto
    then have "x * r \<le> (t * (1 + u)) * r"
      using ta xr by (simp add: algebra_simps)
    then show ?thesis using r by simp
  qed
  have b': "\<bar>b - t\<bar> \<le> t * u"
    using b by (simp add: t_def)
  have blo: "t * (1 - u) \<le> b" and bhi: "b \<le> t * (1 + u)"
    using b' by (auto simp: abs_le_iff algebra_simps)
  have up: "b \<le> x * (1 + 3 * u)"
  proof -
    have "(t * (1 - u)) * (1 + u) \<le> x * (1 + u)"
      using t_hi u1 by (intro mult_right_mono) auto
    moreover have "x * (1 + u) \<le> (x * (1 + 3 * u)) * (1 - u)"
    proof -
      have "0 \<le> x * (u * (1 - 3 * u))"
        using xpos u by (intro mult_nonneg_nonneg) auto
      then show ?thesis by (simp add: algebra_simps)
    qed
    ultimately have "(t * (1 + u)) * (1 - u) \<le> (x * (1 + 3 * u)) * (1 - u)"
      by (simp add: algebra_simps)
    then have "t * (1 + u) \<le> x * (1 + 3 * u)"
      using u1 by simp
    then show ?thesis using bhi by linarith
  qed
  have down: "x * (1 - 3 * u) \<le> b"
  proof -
    have "x * (1 - u) \<le> (t * (1 + u)) * (1 - u)"
      using t_lo u1 by (intro mult_right_mono) auto
    moreover have "(x * (1 - 3 * u)) * (1 + u) \<le> x * (1 - u)"
    proof -
      have "0 \<le> x * (u * (1 + 3 * u))"
        using xpos u by (intro mult_nonneg_nonneg) auto
      then show ?thesis by (simp add: algebra_simps)
    qed
    ultimately have "(x * (1 - 3 * u)) * (1 + u) \<le> (t * (1 - u)) * (1 + u)"
      by (simp add: algebra_simps)
    then have "x * (1 - 3 * u) \<le> t * (1 - u)"
      using u1 by simp
    then show ?thesis using blo by linarith
  qed
  have "\<bar>b - x\<bar> \<le> x * (3 * u)"
    using up down by (simp add: abs_le_iff algebra_simps)
  then show ?thesis using apos by (simp add: x_def)
qed

lemma round_stable:
  fixes x b :: rat and W N :: int
  assumes W: "0 < W" and N: "x * of_int (2 * W) = of_int N"
    and close: "\<bar>b - x\<bar> < 1 / of_int (2 * W)"
    and notie: "frac x \<noteq> 1 / 2"
  shows "\<lfloor>b + 1 / 2\<rfloor> = \<lfloor>x + 1 / 2\<rfloor>"
proof -
  define k where "k = \<lfloor>x + 1 / 2\<rfloor>"
  have k1: "of_int k \<le> x + 1 / 2" and k2: "x + 1 / 2 < of_int k + 1"
    unfolding k_def by linarith+
  have Wr: "(0::rat) < of_int (2 * W)" using W by simp
  have ne: "x + 1 / 2 \<noteq> of_int k"
  proof
    assume "x + 1 / 2 = of_int k"
    then have "x - 1 / 2 = of_int (k - 1)" by simp
    then have "x - 1 / 2 \<in> \<int>" by (metis Ints_of_int)
    moreover have "frac x = 1 / 2 \<longleftrightarrow> x - 1 / 2 \<in> \<int> \<and> 0 \<le> (1 / 2 :: rat) \<and> (1 / 2 :: rat) < 1"
      by (rule frac_unique_iff)
    ultimately have "frac x = 1 / 2"
      by simp
    then show False using notie by simp
  qed
  have lo: "of_int k - 1 / 2 + 1 / of_int (2 * W) \<le> x"
  proof -
    have "of_int k - 1 / 2 < x" using k1 ne by linarith
    then have "(of_int k - 1 / 2) * of_int (2 * W) < x * of_int (2 * W)"
      using Wr by (intro mult_strict_right_mono) auto
    then have "(of_int ((2 * k - 1) * W) :: rat) < of_int N"
      using N by (simp add: algebra_simps)
    then have "(2 * k - 1) * W < N" by (simp only: of_int_less_iff)
    then have "(2 * k - 1) * W + 1 \<le> N" by simp
    then have "(of_int ((2 * k - 1) * W + 1) :: rat) \<le> of_int N"
      by (simp only: of_int_le_iff)
    then have "(of_int k - 1 / 2 + 1 / of_int (2 * W)) * of_int (2 * W) \<le> x * of_int (2 * W)"
      using N Wr by (simp add: algebra_simps)
    then show ?thesis using Wr by (simp only: mult_le_cancel_right_pos)
  qed
  have hi: "x \<le> of_int k + 1 / 2 - 1 / of_int (2 * W)"
  proof -
    have "x < of_int k + 1 / 2" using k2 by linarith
    then have "x * of_int (2 * W) < (of_int k + 1 / 2) * of_int (2 * W)"
      using Wr by (intro mult_strict_right_mono) auto
    then have "(of_int N :: rat) < of_int ((2 * k + 1) * W)"
      using N by (simp add: algebra_simps)
    then have "N < (2 * k + 1) * W" by (simp only: of_int_less_iff)
    then have "N + 1 \<le> (2 * k + 1) * W" by simp
    then have "(of_int (N + 1) :: rat) \<le> of_int ((2 * k + 1) * W)"
      by (simp only: of_int_le_iff)
    then have "x * of_int (2 * W) \<le> (of_int k + 1 / 2 - 1 / of_int (2 * W)) * of_int (2 * W)"
      using N Wr by (simp add: algebra_simps)
    then show ?thesis using Wr by (simp only: mult_le_cancel_right_pos)
  qed
  have "of_int k \<le> b + 1 / 2" and "b + 1 / 2 < of_int k + 1"
    using lo hi close by (auto simp: abs_less_iff)
  then have "\<lfloor>b + 1 / 2\<rfloor> = k" by linarith
  then show ?thesis by (simp add: k_def)
qed

lemma round_tie:
  fixes x b :: rat
  assumes close: "\<bar>b - x\<bar> < 1 / 2" and tie: "frac x = 1 / 2"
  shows "\<lfloor>b + 1 / 2\<rfloor> = \<lfloor>x + 1 / 2\<rfloor> \<or> \<lfloor>b + 1 / 2\<rfloor> = \<lfloor>x + 1 / 2\<rfloor> - 1"
proof -
  have x: "x = of_int \<lfloor>x\<rfloor> + 1 / 2"
    using tie by (simp add: frac_def)
  have k: "\<lfloor>x + 1 / 2\<rfloor> = \<lfloor>x\<rfloor> + 1"
  proof -
    have "x + 1 / 2 = of_int (\<lfloor>x\<rfloor> + 1)" using x by simp
    then show ?thesis by (metis floor_of_int)
  qed
  define j where "j = \<lfloor>x\<rfloor>"
  have xj: "x = of_int j + 1 / 2" using x by (simp add: j_def)
  have "b - x < 1 / 2" and "x - b < 1 / 2"
    using close by linarith+
  then have "of_int j < b + 1 / 2" and "b + 1 / 2 < of_int j + 2"
    using xj by linarith+
  then have "\<lfloor>b + 1 / 2\<rfloor> = j \<or> \<lfloor>b + 1 / 2\<rfloor> = j + 1"
    by linarith
  then have "\<lfloor>b + 1 / 2\<rfloor> = \<lfloor>x\<rfloor> \<or> \<lfloor>b + 1 / 2\<rfloor> = \<lfloor>x\<rfloor> + 1"
    by (simp add: j_def)
  then show ?thesis using k by auto
qed

subsection \<open>The scaled height\<close>

lemma pow_range:
  fixes q :: rat
  assumes "1 / 2 ^ 64 \<le> q" and "q < 2 ^ 64"
  shows "2 powi (- 1022) \<le> q" and "q < 2 powi 1023"
proof -
  have "(2::rat) powi (- 1022) \<le> 2 powi (- 64)"
    by (intro power_int_increasing) auto
  also have "(2::rat) powi (- 64) = 1 / 2 ^ 64"
    by (simp add: power_int_minus_divide)
  finally show "2 powi (- 1022) \<le> q" using assms(1) by linarith
  have "(2::rat) powi 64 \<le> 2 powi 1023"
    by (intro power_int_increasing) auto
  moreover have "(2::rat) powi 64 = 2 ^ 64" by simp
  ultimately show "q < 2 powi 1023" using assms(2) by linarith
qed

lemma fdiv_close:
  fixes w h :: rat
  assumes "0 < h" and "w = 0 \<or> (1 / 2 ^ 64 \<le> w / h \<and> w / h < 2 ^ 64)"
  shows "\<exists>a. fdiv (Num w) (Num h) = Num a \<and> \<bar>a - w / h\<bar> \<le> (w / h) / 2 ^ 53"
proof (cases "w = 0")
  case True
  then show ?thesis using assms(1) by (simp add: round_double_def)
next
  case False
  then have rng: "1 / 2 ^ 64 \<le> w / h" "w / h < 2 ^ 64" using assms(2) by auto
  have "fdiv (Num w) (Num h) = round_double (w / h)"
    using assms(1) by simp
  then show ?thesis
    using round_double_normal[OF pow_range[OF rng]] by simp
qed

lemma nat_ratio_range:
  fixes A B :: nat
  assumes "0 < A" and "A < 2 ^ 32" and "0 < B" and "B < 2 ^ 32"
  shows "1 / 2 ^ 32 \<le> (of_nat A / of_nat B :: rat)" and "(of_nat A / of_nat B :: rat) < 2 ^ 32"
proof -
  have A1: "(1::rat) \<le> of_nat A" using assms(1) by simp
  have B1: "(1::rat) \<le> of_nat B" using assms(3) by simp
  have A2: "(of_nat A :: rat) < 2 ^ 32"
    using assms(2) by (metis of_nat_less_iff of_nat_numeral of_nat_power)
  have B2: "(of_nat B :: rat) < 2 ^ 32"
    using assms(4) by (metis of_nat_less_iff of_nat_numeral of_nat_power)
  have "(1::rat) / 2 ^ 32 \<le> 1 / of_nat B"
    using B1 B2 by (intro divide_left_mono) auto
  also have "\<dots> \<le> of_nat A / of_nat B"
    using A1 B1 by (intro divide_right_mono) auto
  finally show "1 / 2 ^ 32 \<le> (of_nat A / of_nat B :: rat)" .
  have "(of_nat A / of_nat B :: rat) \<le> of_nat A / 1"
    using A1 B1 by (intro divide_left_mono) auto
  then show "(of_nat A / of_nat B :: rat) < 2 ^ 32"
    using A2 by simp
qed

lemma scaled_height:
  fixes W H :: nat
  assumes W: "2000 < W" "W < 2 ^ 32" and H: "0 < H" "H < 2 ^ 32"
  defines "x \<equiv> (2000 * of_nat H / of_nat W :: rat)"
  shows "\<exists>h :: int. 0 \<le> h \<and> of_int h \<le> 2 * x + 1
           \<and> Math_round (fdiv (Num 2000) (fdiv (Num (of_nat W)) (Num (of_nat H)))) = Num (of_int h)
           \<and> (frac x \<noteq> 1 / 2 \<longrightarrow> h = \<lfloor>x + 1 / 2\<rfloor>)
           \<and> (frac x = 1 / 2 \<longrightarrow> h = \<lfloor>x + 1 / 2\<rfloor> \<or> h = \<lfloor>x + 1 / 2\<rfloor> - 1)"
proof -
  define r :: rat where "r = of_nat W / of_nat H"
  define u :: rat where "u = 1 / 2 ^ 53"
  have Wpos: "0 < W" using W by simp
  have Wr: "(0::rat) < of_nat W" and Hr: "(0::rat) < of_nat H"
    using Wpos H by auto
  have rpos: "0 < r" using Wr Hr by (simp add: r_def)
  have rr: "1 / 2 ^ 32 \<le> r" "r < 2 ^ 32"
    using nat_ratio_range[OF Wpos W(2) H] by (auto simp: r_def)
  have xr: "x = 2000 / r"
    using Wr Hr by (simp add: x_def r_def)
  have xpos: "0 < x" using rpos by (simp add: xr)
  have upos: "0 < u" "u \<le> 1 / 3" by (simp_all add: u_def)
  \<comment> \<open>first rounding: the aspect ratio\<close>
  have rng1: "1 / 2 ^ 64 \<le> r" "r < 2 ^ 64"
  proof -
    have "(1::rat) / 2 ^ 64 \<le> 1 / 2 ^ 32" by simp
    then show "1 / 2 ^ 64 \<le> r" using rr(1) by linarith
    have "(2::rat) ^ 32 \<le> 2 ^ 64" by simp
    then show "r < 2 ^ 64" using rr(2) by linarith
  qed
  obtain a where a: "round_double r = Num a" and ae: "\<bar>a - r\<bar> \<le> r / 2 ^ 53"
    using round_double_normal[OF pow_range[OF rng1]] by blast
  have ae': "\<bar>a - r\<bar> \<le> r * u" using ae by (simp add: u_def)
  have f1: "fdiv (Num (of_nat W)) (Num (of_nat H)) = Num a"
    using Hr a by (simp add: r_def)
  have alo: "r / 2 \<le> a" and ahi: "a \<le> 2 * r"
  proof -
    have ru: "r * u \<le> r / 2" using rpos by (simp add: u_def)
    show "r / 2 \<le> a" using ae' ru by linarith
    show "a \<le> 2 * r" using ae' ru rpos by linarith
  qed
  have apos: "0 < a" using alo rpos by linarith
  \<comment> \<open>second rounding: the quotient of the cap by the aspect ratio\<close>
  have rng2: "1 / 2 ^ 64 \<le> 2000 / a" "2000 / a < 2 ^ 64"
  proof -
    define lo :: rat where "lo = 1 / 2 ^ 32"
    define hi :: rat where "hi = 2 ^ 32"
    have lr: "lo \<le> r" "r < hi" using rr by (simp_all add: lo_def hi_def)
    have lopos: "0 < lo" by (simp add: lo_def)
    have "a < 2 * hi" using ahi lr(2) by linarith
    then have "(2000::rat) / (2 * hi) \<le> 2000 / a"
      using apos by (intro divide_left_mono) auto
    moreover have "(1::rat) / 2 ^ 64 \<le> 2000 / (2 * hi)" by (simp add: hi_def)
    ultimately show "1 / 2 ^ 64 \<le> 2000 / a" by linarith
    have "lo / 2 \<le> a" using alo lr(1) by linarith
    then have "2000 / a \<le> 2000 / (lo / 2)"
      using lopos by (intro divide_left_mono) auto
    moreover have "(2000::rat) / (lo / 2) < 2 ^ 64" by (simp add: lo_def)
    ultimately show "2000 / a < 2 ^ 64" by linarith
  qed
  obtain b where b: "round_double (2000 / a) = Num b"
    and be: "\<bar>b - 2000 / a\<bar> \<le> (2000 / a) / 2 ^ 53"
    using round_double_normal[OF pow_range[OF rng2]] by blast
  have be': "\<bar>b - 2000 / a\<bar> \<le> (2000 / a) * u" using be by (simp add: u_def)
  have f2: "fdiv (Num 2000) (Num a) = Num b"
    using apos b by simp
  have close3: "\<bar>b - x\<bar> \<le> x * (3 * u)"
    using two_roundings[OF rpos _ upos ae' be'] by (simp add: xr)
  \<comment> \<open>the error is below half a grid step of the exact quotient\<close>
  have Hlt: "(of_nat H :: rat) < 2 ^ 32"
    using H(2) by (metis of_nat_less_iff of_nat_numeral of_nat_power)
  have small: "x * (3 * u) < 1 / of_int (2 * int W)"
  proof -
    have "12000 * (of_nat H :: rat) < 12000 * 2 ^ 32" using Hlt by simp
    also have "(12000::rat) * 2 ^ 32 < 2 ^ 53" by simp
    finally have "12000 * (of_nat H :: rat) < 2 ^ 53" .
    then have "(2000 * of_nat H * 3 * 2 :: rat) < 2 ^ 53" by simp
    then have "(2000 * of_nat H * 3 * 2 :: rat) / (2 ^ 53 * (2 * of_nat W)) < 2 ^ 53 / (2 ^ 53 * (2 * of_nat W))"
      using Wr by (intro divide_strict_right_mono) auto
    moreover have "x * (3 * u) = (2000 * of_nat H * 3 * 2 :: rat) / (2 ^ 53 * (2 * of_nat W))"
      using Wr by (simp add: x_def u_def)
    moreover have "(2 ^ 53 :: rat) / (2 ^ 53 * (2 * of_nat W)) = 1 / of_int (2 * int W)"
      by simp
    ultimately show ?thesis by simp
  qed
  have close: "\<bar>b - x\<bar> < 1 / of_int (2 * int W)"
    using close3 small by linarith
  have half: "(1::rat) / of_int (2 * int W) \<le> 1 / 2"
  proof -
    have "(1::rat) \<le> of_nat W" using Wpos by simp
    then show ?thesis by simp
  qed
  have closeh: "\<bar>b - x\<bar> < 1 / 2" using close half by linarith
  have N: "x * of_int (2 * int W) = of_int (4000 * int H)"
    using Wr by (simp add: x_def)
  define h where "h = \<lfloor>b + 1 / 2\<rfloor>"
  have bpos: "0 \<le> b"
  proof -
    have "x * (3 * u) \<le> x" using xpos by (simp add: u_def)
    then show ?thesis using close3 by linarith
  qed
  have h0: "0 \<le> h" using bpos by (simp add: h_def)
  have hup: "of_int h \<le> 2 * x + 1"
  proof -
    have "of_int h \<le> b + 1 / 2" unfolding h_def by linarith
    moreover have "x * (3 * u) \<le> x" using xpos by (simp add: u_def)
    ultimately show ?thesis using close3 xpos by linarith
  qed
  have mr: "Math_round (fdiv (Num 2000) (fdiv (Num (of_nat W)) (Num (of_nat H)))) = Num (of_int h)"
    by (simp only: f1 f2 h_def Math_round.simps)
  have nt: "frac x \<noteq> 1 / 2 \<longrightarrow> h = \<lfloor>x + 1 / 2\<rfloor>"
    using round_stable[OF _ N close] Wpos by (simp add: h_def)
  have ti: "frac x = 1 / 2 \<longrightarrow> h = \<lfloor>x + 1 / 2\<rfloor> \<or> h = \<lfloor>x + 1 / 2\<rfloor> - 1"
    using round_tie[OF closeh] by (simp add: h_def)
  show ?thesis
    using h0 hup mr nt ti by blast
qed

lemma of_nat_lt_pow32:
  fixes A :: nat
  assumes "A < 2 ^ 32"
  shows "(of_nat A :: rat) < 2 ^ 32"
  using assms by (metis of_nat_less_iff of_nat_numeral of_nat_power)

lemma half_samples:
  "round_double 4000 = Num 4000"
  "Math_round (fdiv (Num 2000) (Num 4000)) = Num 1"
  by code_simp+

lemma scaled_height_positive:
  assumes W: "2000 < W" "W < 2 ^ 32" and H: "0 < H" "H < 2 ^ 32"
    and mr: "Math_round (fdiv (Num 2000) (fdiv (Num (of_nat W)) (Num (of_nat H)))) = Num (of_int h)"
    and nt: "frac (2000 * of_nat H / of_nat W :: rat) \<noteq> 1 / 2 \<longrightarrow>
               h = \<lfloor>(2000 * of_nat H / of_nat W :: rat) + 1 / 2\<rfloor>"
    and ti: "frac (2000 * of_nat H / of_nat W :: rat) = 1 / 2 \<longrightarrow>
               h = \<lfloor>(2000 * of_nat H / of_nat W :: rat) + 1 / 2\<rfloor>
               \<or> h = \<lfloor>(2000 * of_nat H / of_nat W :: rat) + 1 / 2\<rfloor> - 1"
  shows "(W \<le> 4000 * H \<longrightarrow> 1 \<le> h) \<and> (4000 * H < W \<longrightarrow> h = 0)"
proof -
  define x :: rat where "x = 2000 * of_nat H / of_nat W"
  have Wr: "(0::rat) < of_nat W" using W(1) by simp
  have Hr: "(0::rat) < of_nat H" using H(1) by simp
  have xpos: "0 < x" using Wr Hr by (simp add: x_def)
  have small: "4000 * H < W \<Longrightarrow> h = 0"
  proof -
    assume a: "4000 * H < W"
    have "(of_nat (4000 * H) :: rat) < of_nat W" using a by (simp only: of_nat_less_iff)
    then have "4000 * (of_nat H :: rat) < of_nat W" by simp
    then have xl: "x < 1 / 2" using Wr by (simp add: x_def field_simps)
    have fl: "\<lfloor>x\<rfloor> = 0" using xpos xl by (intro floor_unique) auto
    have "frac x = x" using fl by (simp add: frac_def)
    then have "frac x \<noteq> 1 / 2" using xl by linarith
    then have "h = \<lfloor>x + 1 / 2\<rfloor>" using nt by (simp add: x_def)
    moreover have "\<lfloor>x + 1 / 2\<rfloor> = 0" using xpos xl by (intro floor_unique) auto
    ultimately show "h = 0" by simp
  qed
  have exact: "W = 4000 * H \<Longrightarrow> 1 \<le> h"
  proof -
    assume a: "W = 4000 * H"
    have q: "(of_nat W / of_nat H :: rat) = 4000" using a Hr by simp
    have "fdiv (Num (of_nat W)) (Num (of_nat H)) = Num 4000"
      using Hr q by (simp add: half_samples)
    then have "Math_round (fdiv (Num 2000) (fdiv (Num (of_nat W)) (Num (of_nat H)))) = Num 1"
      by (simp only: half_samples)
    then have "(of_int h :: rat) = 1" using mr by simp
    then show "1 \<le> h" by simp
  qed
  have large: "W < 4000 * H \<Longrightarrow> 1 \<le> h"
  proof -
    assume a: "W < 4000 * H"
    have "(of_nat W :: rat) < of_nat (4000 * H)" using a by (simp only: of_nat_less_iff)
    then have "(of_nat W :: rat) < 4000 * of_nat H" by simp
    then have xl: "1 / 2 < x" using Wr by (simp add: x_def field_simps)
    have f1: "1 \<le> \<lfloor>x + 1 / 2\<rfloor>" using xl by (simp add: le_floor_iff)
    show "1 \<le> h"
    proof (cases "frac x = 1 / 2")
      case False
      then show ?thesis using nt f1 by (simp add: x_def)
    next
      case True
      have "x = of_int \<lfloor>x\<rfloor> + 1 / 2" using True by (simp add: frac_def)
      then have "1 / 2 < (of_int \<lfloor>x\<rfloor> :: rat) + 1 / 2" using xl by linarith
      then have "(0::rat) < of_int \<lfloor>x\<rfloor>" by linarith
      then have "1 \<le> \<lfloor>x\<rfloor>" by simp
      then have "2 \<le> \<lfloor>x\<rfloor> + 1" by simp
      moreover have "\<lfloor>x + 1 / 2\<rfloor> = \<lfloor>x\<rfloor> + 1"
      proof -
        have "x + 1 / 2 = of_int (\<lfloor>x\<rfloor> + 1)" using True by (simp add: frac_def)
        then show ?thesis by (metis floor_of_int)
      qed
      ultimately have "2 \<le> \<lfloor>x + 1 / 2\<rfloor>" by simp
      then show ?thesis using ti True by (auto simp: x_def)
    qed
  qed
  show ?thesis using small exact large by (metis le_neq_implies_less)
qed


text \<open>
  C3, amended: take an image that decodes with natural width \<open>W\<close> and height \<open>H\<close>,
  \<open>0 < H\<close>, both below \<open>2 ^ 32\<close>, and an encoder that does not fail.  If
  \<open>0 < W \<le> 4000 * H\<close>, \<open>processImage\<close> returns a result of positive width at most 2000 and
  of height at least 1.  For \<open>W \<le> 2000\<close> the dimensions are \<open>W\<close> and \<open>H\<close>.  For \<open>2000 < W\<close>
  the width is 2000 and the height is \<open>2000 * H / W\<close> rounded to the nearest integer,
  except that where this quotient lies exactly half-way between two integers the height
  is the upper or the lower of the two.  The returned aspect ratio is the returned width
  over the returned height to a relative error of at most \<open>1 / 2 ^ 53\<close>.  If \<open>W = 0\<close> or
  \<open>4000 * H < W\<close> the scaled canvas has no pixels and \<open>processImage\<close> rejects with
  \<open>Failed to process image\<close>.
\<close>

theorem processImage_dimensions:
  assumes dec: "decode env = Some (W, H)" and enc: "encode env = Some n"
    and H: "0 < H" "H < 2 ^ 32" and W: "W < 2 ^ 32"
  shows "(0 < W \<and> W \<le> 4000 * H \<longrightarrow>
            (\<exists>r w h. processImage env f = Inr r \<and> width r = Num w \<and> height r = Num h
               \<and> 0 < w \<and> w \<le> 2000 \<and> 1 \<le> h
               \<and> (W \<le> 2000 \<longrightarrow> w = of_nat W \<and> h = of_nat H)
               \<and> (2000 < W \<longrightarrow> w = 2000
                     \<and> (frac (2000 * of_nat H / of_nat W :: rat) \<noteq> 1 / 2 \<longrightarrow>
                           h = of_int \<lfloor>(2000 * of_nat H / of_nat W :: rat) + 1 / 2\<rfloor>)
                     \<and> (frac (2000 * of_nat H / of_nat W :: rat) = 1 / 2 \<longrightarrow>
                           h = of_int \<lfloor>(2000 * of_nat H / of_nat W :: rat) + 1 / 2\<rfloor>
                           \<or> h = of_int \<lfloor>(2000 * of_nat H / of_nat W :: rat) + 1 / 2\<rfloor> - 1))
               \<and> (\<exists>a. aspectRatio r = Num a \<and> \<bar>a - w / h\<bar> \<le> (w / h) / 2 ^ 53)))
         \<and> (W = 0 \<or> 4000 * H < W \<longrightarrow> processImage env f = Inl ''Failed to process image'')"
proof (cases "2000 < W")
  case False
  have Hr: "(0::rat) < of_nat H" using H by simp
  have H1: "(1::rat) \<le> of_nat H" using H by simp
  have notbig: "\<not> 4000 * H < W" using False H by linarith
  have empty: "W = 0 \<Longrightarrow> processImage env f = Inl ''Failed to process image''"
    using dec by (simp add: processImage_def toBlob_def MAX_WIDTH_def Let_def del: fdiv.simps)
  have full: "\<exists>r w h. processImage env f = Inr r \<and> width r = Num w \<and> height r = Num h
               \<and> 0 < w \<and> w \<le> 2000 \<and> 1 \<le> h
               \<and> (W \<le> 2000 \<longrightarrow> w = of_nat W \<and> h = of_nat H)
               \<and> (2000 < W \<longrightarrow> w = 2000
                     \<and> (frac (2000 * of_nat H / of_nat W :: rat) \<noteq> 1 / 2 \<longrightarrow>
                           h = of_int \<lfloor>(2000 * of_nat H / of_nat W :: rat) + 1 / 2\<rfloor>)
                     \<and> (frac (2000 * of_nat H / of_nat W :: rat) = 1 / 2 \<longrightarrow>
                           h = of_int \<lfloor>(2000 * of_nat H / of_nat W :: rat) + 1 / 2\<rfloor>
                           \<or> h = of_int \<lfloor>(2000 * of_nat H / of_nat W :: rat) + 1 / 2\<rfloor> - 1))
               \<and> (\<exists>a. aspectRatio r = Num a \<and> \<bar>a - w / h\<bar> \<le> (w / h) / 2 ^ 53)"
    if Wpos: "0 < W"
  proof -
    define r where "r = \<lparr>file = \<lparr>name = name f, ftype = ftype f, fsize = n\<rparr>,
        width = Num (of_nat W), height = Num (of_nat H),
        aspectRatio = fdiv (Num (of_nat W)) (Num (of_nat H))\<rparr>"
    have run: "processImage env f = Inr r"
      using dec enc False Wpos H(1)
      by (simp add: processImage_def toBlob_def MAX_WIDTH_def r_def Let_def del: fdiv.simps)
    have Wr: "(0::rat) < of_nat W" using Wpos by simp
    have wle: "(of_nat W :: rat) \<le> 2000"
      using False by (metis leI of_nat_le_iff of_nat_numeral)
    have "1 / 2 ^ 32 \<le> (of_nat W / of_nat H :: rat)" and "(of_nat W / of_nat H :: rat) < 2 ^ 32"
      using nat_ratio_range[OF Wpos W H] by auto
    moreover have "(1::rat) / 2 ^ 64 \<le> 1 / 2 ^ 32" by simp
    moreover have "(2::rat) ^ 32 \<le> 2 ^ 64" by simp
    ultimately have rng: "(of_nat W :: rat) = 0 \<or>
        (1 / 2 ^ 64 \<le> (of_nat W / of_nat H :: rat) \<and> (of_nat W / of_nat H :: rat) < 2 ^ 64)"
      by linarith
    obtain a where a: "fdiv (Num (of_nat W)) (Num (of_nat H)) = Num a"
      and ae: "\<bar>a - of_nat W / of_nat H\<bar> \<le> (of_nat W / of_nat H) / 2 ^ 53"
      using fdiv_close[OF Hr rng] by blast
    have asp: "\<exists>a. aspectRatio r = Num a
        \<and> \<bar>a - of_nat W / of_nat H\<bar> \<le> (of_nat W / of_nat H) / 2 ^ 53"
      using a ae by (simp add: r_def del: fdiv.simps)
    show ?thesis
      apply (rule exI[of _ r], rule exI[of _ "of_nat W"], rule exI[of _ "of_nat H"])
      using run wle Wr H1 asp False by (simp add: r_def del: fdiv.simps)
  qed
  show ?thesis using empty full notbig by blast
next
  case True
  obtain h :: int where h0: "0 \<le> h"
    and hup: "of_int h \<le> 2 * (2000 * of_nat H / of_nat W :: rat) + 1"
    and mr: "Math_round (fdiv (Num 2000) (fdiv (Num (of_nat W)) (Num (of_nat H)))) = Num (of_int h)"
    and nt: "frac (2000 * of_nat H / of_nat W :: rat) \<noteq> 1 / 2 \<longrightarrow>
               h = \<lfloor>(2000 * of_nat H / of_nat W :: rat) + 1 / 2\<rfloor>"
    and ti: "frac (2000 * of_nat H / of_nat W :: rat) = 1 / 2 \<longrightarrow>
               h = \<lfloor>(2000 * of_nat H / of_nat W :: rat) + 1 / 2\<rfloor>
               \<or> h = \<lfloor>(2000 * of_nat H / of_nat W :: rat) + 1 / 2\<rfloor> - 1"
    using scaled_height[OF True W H] by blast
  have sign: "(W \<le> 4000 * H \<longrightarrow> 1 \<le> h) \<and> (4000 * H < W \<longrightarrow> h = 0)"
    using scaled_height_positive[OF True W H mr nt ti] .
  have Wnz: "W \<noteq> 0" using True by simp
  have strip: "4000 * H < W \<Longrightarrow> processImage env f = Inl ''Failed to process image''"
    using dec True mr sign
    by (simp add: processImage_def toBlob_def MAX_WIDTH_def Let_def del: fdiv.simps)
  have full: "\<exists>r w h. processImage env f = Inr r \<and> width r = Num w \<and> height r = Num h
               \<and> 0 < w \<and> w \<le> 2000 \<and> 1 \<le> h
               \<and> (W \<le> 2000 \<longrightarrow> w = of_nat W \<and> h = of_nat H)
               \<and> (2000 < W \<longrightarrow> w = 2000
                     \<and> (frac (2000 * of_nat H / of_nat W :: rat) \<noteq> 1 / 2 \<longrightarrow>
                           h = of_int \<lfloor>(2000 * of_nat H / of_nat W :: rat) + 1 / 2\<rfloor>)
                     \<and> (frac (2000 * of_nat H / of_nat W :: rat) = 1 / 2 \<longrightarrow>
                           h = of_int \<lfloor>(2000 * of_nat H / of_nat W :: rat) + 1 / 2\<rfloor>
                           \<or> h = of_int \<lfloor>(2000 * of_nat H / of_nat W :: rat) + 1 / 2\<rfloor> - 1))
               \<and> (\<exists>a. aspectRatio r = Num a \<and> \<bar>a - w / h\<bar> \<le> (w / h) / 2 ^ 53)"
    if fits: "W \<le> 4000 * H"
  proof -
    have hp: "1 \<le> h" using sign fits by blast
    define r where "r = \<lparr>file = \<lparr>name = name f, ftype = ftype f, fsize = n\<rparr>,
        width = Num 2000, height = Num (of_int h),
        aspectRatio = fdiv (Num 2000) (Num (of_int h))\<rparr>"
    have hnz: "h \<noteq> 0" using hp by simp
    have run: "processImage env f = Inr r"
      using dec enc True mr hnz
      by (simp add: processImage_def toBlob_def MAX_WIDTH_def r_def Let_def del: fdiv.simps)
    have h1: "(1::rat) \<le> of_int h" using hp by simp
    have hr: "(0::rat) < of_int h" using hp by simp
    have Wr: "(2000::rat) < of_nat W"
      using True by (metis of_nat_less_iff of_nat_numeral)
    have Hlt: "(of_nat H :: rat) < 2 ^ 32" using H(2) by (rule of_nat_lt_pow32)
    have x_le: "(2000 * of_nat H / of_nat W :: rat) \<le> of_nat H"
    proof -
      have "(2000 * of_nat H / of_nat W :: rat) \<le> of_nat W * of_nat H / of_nat W"
        using Wr by (intro divide_right_mono mult_right_mono) auto
      then show ?thesis using Wr by simp
    qed
    define hi :: rat where "hi = 2 ^ 34"
    have hlt: "of_int h < hi"
    proof -
      have "of_int h \<le> 2 * (of_nat H :: rat) + 1" using hup x_le by linarith
      moreover have "2 * (2 ^ 32 :: rat) + 1 < 2 ^ 34" by simp
      ultimately show ?thesis using Hlt by (simp add: hi_def)
    qed
    have "(2000::rat) / hi \<le> 2000 / of_int h"
      using hlt hr by (intro divide_left_mono) (auto simp: hi_def)
    moreover have "(1::rat) / 2 ^ 64 \<le> 2000 / hi" by (simp add: hi_def)
    ultimately have lo: "1 / 2 ^ 64 \<le> (2000 / of_int h :: rat)" by linarith
    have "(2000 / of_int h :: rat) \<le> 2000 / 1"
      using h1 by (intro divide_left_mono) auto
    moreover have "(2000::rat) / 1 < 2 ^ 64" by simp
    ultimately have up: "(2000 / of_int h :: rat) < 2 ^ 64" by linarith
    have "\<exists>a. fdiv (Num 2000) (Num (of_int h)) = Num a
             \<and> \<bar>a - 2000 / of_int h\<bar> \<le> (2000 / of_int h) / 2 ^ 53"
      using fdiv_close[OF hr, of 2000] lo up by blast
    then have pos: "\<exists>a. aspectRatio r = Num a
        \<and> \<bar>a - 2000 / of_int h\<bar> \<le> (2000 / of_int h) / 2 ^ 53"
      by (simp add: r_def del: fdiv.simps)
    have nt': "frac (2000 * of_nat H / of_nat W :: rat) \<noteq> 1 / 2 \<longrightarrow>
                 (of_int h :: rat) = of_int \<lfloor>(2000 * of_nat H / of_nat W :: rat) + 1 / 2\<rfloor>"
      using nt by simp
    have ti': "frac (2000 * of_nat H / of_nat W :: rat) = 1 / 2 \<longrightarrow>
                 (of_int h :: rat) = of_int \<lfloor>(2000 * of_nat H / of_nat W :: rat) + 1 / 2\<rfloor>
                 \<or> (of_int h :: rat) = of_int \<lfloor>(2000 * of_nat H / of_nat W :: rat) + 1 / 2\<rfloor> - 1"
      using ti by auto
    have wd: "width r = Num 2000" and ht: "height r = Num (of_int h)"
      by (simp_all add: r_def)
    show ?thesis
      apply (rule exI[of _ r], rule exI[of _ 2000], rule exI[of _ "of_int h"])
      using run wd ht h1 nt' ti' pos True by simp
  qed
  show ?thesis using strip full Wnz by blast
qed


subsection \<open>The normalizer at the sample images\<close>

lemma float_samples:
  "Math_round (fdiv (Num 2000) (fdiv (Num 2080) (Num 1027))) = Num 987"
  "fdiv (Num 2000) (Num 987) = Num (570364694449151 / 281474976710656)"
  "Math_round (fdiv (Num 2000) (fdiv (Num 4001) (Num 1))) = Num 0"
  "Math_round (fdiv (Num 2000) (fdiv (Num 4000) (Num 3000))) = Num 1500"
  "fdiv (Num 2000) (Num 1500) = Num (6004799503160661 / 4503599627370496)"
  by code_simp+

lemma exact_samples:
  "\<lfloor>(2000 * 1027 / 2080 :: rat) + 1 / 2\<rfloor> = 988"
  "frac (2000 * 1027 / 2080 :: rat) = 1 / 2"
  by code_simp+

lemma tie_run:
  "processImage tieImage sampleFile
     = Inr \<lparr>file = \<lparr>name = ''lab-results.png'', ftype = ''image/png'', fsize = 1024\<rparr>,
            width = Num 2000, height = Num 987,
            aspectRatio = Num (570364694449151 / 281474976710656)\<rparr>"
  by (simp add: processImage_def toBlob_def MAX_WIDTH_def Let_def sampleFile_def tieImage_def
      float_samples del: fdiv.simps Math_round.simps)

lemma strip_run:
  "processImage stripImage sampleFile = Inl ''Failed to process image''"
  by (simp add: processImage_def toBlob_def MAX_WIDTH_def Let_def sampleFile_def stripImage_def
      float_samples del: fdiv.simps Math_round.simps)

lemma large_run:
  "processImage largeImage sampleFile
     = Inr \<lparr>file = \<lparr>name = ''lab-results.png'', ftype = ''image/png'', fsize = 1024\<rparr>,
            width = Num 2000, height = Num 1500,
            aspectRatio = Num (6004799503160661 / 4503599627370496)\<rparr>"
  by (simp add: processImage_def toBlob_def MAX_WIDTH_def Let_def sampleFile_def largeImage_def
      float_samples del: fdiv.simps Math_round.simps)

lemma small_run:
  "processImage smallImage sampleFile
     = Inr \<lparr>file = \<lparr>name = ''lab-results.png'', ftype = ''image/png'', fsize = 1024\<rparr>,
            width = Num 800, height = Num 600,
            aspectRatio = Num (6004799503160661 / 4503599627370496)\<rparr>"
  using sample_processImage by (simp add: smallImage_def)

text \<open>
  C3, as stated, fails.  An image of 2080 x 1027 pixels is returned 2000 x 987, while
  \<open>2000 * 1027 / 2080 = 987.5\<close> rounds to 988: the quotient is computed in two rounded
  double divisions and lands just below the half.  An image of 4001 x 1 pixels is scaled
  to a canvas of height 0, which has no pixels, and \<open>processImage\<close> rejects.
\<close>

theorem scaled_height_counterexample:
  "processImage tieImage sampleFile
     = Inr \<lparr>file = \<lparr>name = ''lab-results.png'', ftype = ''image/png'', fsize = 1024\<rparr>,
            width = Num 2000, height = Num 987,
            aspectRatio = Num (570364694449151 / 281474976710656)\<rparr>
   \<and> decode tieImage = Some (2080, 1027)
   \<and> \<lfloor>(2000 * 1027 / 2080 :: rat) + 1 / 2\<rfloor> = 988
   \<and> processImage stripImage sampleFile = Inl ''Failed to process image''
   \<and> decode stripImage = Some (4001, 1)"
proof -
  have d1: "decode tieImage = Some (2080, 1027)" by (simp add: tieImage_def)
  have d2: "decode stripImage = Some (4001, 1)" by (simp add: stripImage_def)
  show ?thesis
    by (intro conjI) (rule tie_run d1 exact_samples strip_run d2)+
qed

theorem processImage_dimensions_witness:
  "decode tieImage = Some (2080, 1027) \<and> encode tieImage = Some 1024
   \<and> (0::nat) < 1027 \<and> (1027::nat) < 2 ^ 32 \<and> (2080::nat) < 2 ^ 32
   \<and> (0::nat) < 2080 \<and> (2080::nat) \<le> 4000 * 1027
   \<and> processImage tieImage sampleFile
       = Inr \<lparr>file = \<lparr>name = ''lab-results.png'', ftype = ''image/png'', fsize = 1024\<rparr>,
              width = Num 2000, height = Num 987,
              aspectRatio = Num (570364694449151 / 281474976710656)\<rparr>
   \<and> frac (2000 * 1027 / 2080 :: rat) = 1 / 2
   \<and> (987 :: int) = \<lfloor>(2000 * 1027 / 2080 :: rat) + 1 / 2\<rfloor> - 1
   \<and> \<bar>570364694449151 / 281474976710656 - 2000 / 987 :: rat\<bar> \<le> (2000 / 987) / 2 ^ 53
   \<and> decode stripImage = Some (4001, 1) \<and> encode stripImage = Some 1024
   \<and> (0::nat) < 1 \<and> (1::nat) < 2 ^ 32 \<and> (4001::nat) < 2 ^ 32
   \<and> 4000 * 1 < (4001::nat)
   \<and> processImage stripImage sampleFile = Inl ''Failed to process image''
   \<and> processImage smallImage sampleFile
       = Inr \<lparr>file = \<lparr>name = ''lab-results.png'', ftype = ''image/png'', fsize = 1024\<rparr>,
              width = Num 800, height = Num 600,
              aspectRatio = Num (6004799503160661 / 4503599627370496)\<rparr>
   \<and> processImage largeImage sampleFile
       = Inr \<lparr>file = \<lparr>name = ''lab-results.png'', ftype = ''image/png'', fsize = 1024\<rparr>,
              width = Num 2000, height = Num 1500,
              aspectRatio = Num (6004799503160661 / 4503599627370496)\<rparr>"
proof -
  have hyps: "decode tieImage = Some (2080, 1027)" "encode tieImage = Some 1024"
    "(0::nat) < 1027" "(1027::nat) < 2 ^ 32" "(2080::nat) < 2 ^ 32"
    by (simp_all add: tieImage_def)
  have fits: "(0::nat) < 2080" "(2080::nat) \<le> 4000 * 1027" by simp_all
  have shyps: "decode stripImage = Some (4001, 1)" "encode stripImage = Some 1024"
    "(0::nat) < 1" "(1::nat) < 2 ^ 32" "(4001::nat) < 2 ^ 32"
    by (simp_all add: stripImage_def)
  have over: "4000 * 1 < (4001::nat)" by simp
  from processImage_dimensions [OF hyps, of sampleFile, THEN conjunct1] fits
  obtain r w h where r: "processImage tieImage sampleFile = Inr r"
    and w: "width r = Num w" and h: "height r = Num h"
    and asp: "\<exists>a. aspectRatio r = Num a \<and> \<bar>a - w / h\<bar> \<le> (w / h) / 2 ^ 53"
    by blast
  have req: "r = \<lparr>file = \<lparr>name = ''lab-results.png'', ftype = ''image/png'', fsize = 1024\<rparr>,
              width = Num 2000, height = Num 987,
              aspectRatio = Num (570364694449151 / 281474976710656)\<rparr>"
    using r tie_run by simp
  have wv: "w = 2000" and hv: "h = 987"
    using w h by (simp_all add: req)
  have near: "\<bar>570364694449151 / 281474976710656 - 2000 / 987 :: rat\<bar> \<le> (2000 / 987) / 2 ^ 53"
    using asp unfolding wv hv req by simp
  have k: "(987 :: int) = \<lfloor>(2000 * 1027 / 2080 :: rat) + 1 / 2\<rfloor> - 1"
    by (simp only: exact_samples)
  have rejected: "processImage stripImage sampleFile = Inl ''Failed to process image''"
    using processImage_dimensions [OF shyps, of sampleFile, THEN conjunct2] over by blast
  show ?thesis
    by (intro conjI)
      (rule hyps fits tie_run exact_samples(2) k near shyps over rejected small_run large_run)+
qed

section \<open>The cap on the media list\<close>













end
